theory Spec2Isabelle
  imports Complex_Main "HOL-Library.Word"
begin

unbundle bit_operations_syntax

section \<open>IEEE 754 binary32 arithmetic, as the C type \<open>float\<close> computes\<close>

text \<open>
  The TxPID module and the sine lookup compute in C \<open>float\<close>.  A value is NaN, a signed
  infinity, or a signed finite magnitude.  A finite magnitude is kept as a natural
  number of units of \<open>2^-149\<close> (the smallest subnormal), so that every finite binary32
  value, subnormals and both zeros included, is \<open>Finite s m\<close> for exactly one pair:
  \<open>s\<close> is the sign bit and \<open>m < 2^277\<close> has at most 24 significant bits.  One NaN stands
  for all NaN payloads.  Every operation is computed exactly and rounded once, to
  nearest, ties to even; each C operator is one operation (no fused multiply-add, no
  excess precision).
\<close>

datatype f32 = NaN | Infinity bool | Finite bool nat

fun bitlen_nat :: "nat \<Rightarrow> nat" where
  "bitlen_nat n = (if n = 0 then 0 else Suc (bitlen_nat (n div 2)))"

declare bitlen_nat.simps [simp del]

text \<open>Round the fraction \<open>p / q\<close> to an integer, ties to the even neighbour.\<close>

definition rhe :: "nat \<Rightarrow> nat \<Rightarrow> nat" where
  "rhe p q = (let n = p div q; r = p mod q
              in if 2 * r < q then n else if q < 2 * r then n + 1
                 else if even n then n else n + 1)"

text \<open>
  Round \<open>p / q\<close> units to 24 significant bits.  Below \<open>2^24\<close> units (the subnormals and
  the first normal binade) the spacing is one unit.
\<close>

definition rnd :: "nat \<Rightarrow> nat \<Rightarrow> nat" where
  "rnd p q = (let s = bitlen_nat (p div q) - 24 in rhe p (q * 2 ^ s) * 2 ^ s)"

text \<open>
  \<open>f32_round s p q\<close> is the binary32 value of sign \<open>s\<close> nearest to \<open>p / q\<close> units.  A
  rounded magnitude of \<open>2^277\<close> units, which is \<open>2^128\<close>, overflows to infinity.
\<close>

definition f32_round :: "bool \<Rightarrow> nat \<Rightarrow> nat \<Rightarrow> f32" where
  "f32_round s p q = (let m = rnd p q in if 2 ^ 277 \<le> m then Infinity s else Finite s m)"

definition sval :: "bool \<Rightarrow> nat \<Rightarrow> int" where
  "sval s m = (if s then - int m else int m)"

fun fneg :: "f32 \<Rightarrow> f32" where
  "fneg NaN = NaN"
| "fneg (Infinity s) = Infinity (\<not> s)"
| "fneg (Finite s m) = Finite (\<not> s) m"

text \<open>An exactly zero sum is \<open>-0\<close> only when both operands are negative.\<close>

fun fadd :: "f32 \<Rightarrow> f32 \<Rightarrow> f32" where
  "fadd NaN _ = NaN"
| "fadd _ NaN = NaN"
| "fadd (Infinity s) (Infinity t) = (if s = t then Infinity s else NaN)"
| "fadd (Infinity s) (Finite _ _) = Infinity s"
| "fadd (Finite _ _) (Infinity t) = Infinity t"
| "fadd (Finite s m) (Finite t n) =
     (let z = sval s m + sval t n
      in if z = 0 then Finite (s \<and> t) 0 else f32_round (z < 0) (nat \<bar>z\<bar>) 1)"

definition fsub :: "f32 \<Rightarrow> f32 \<Rightarrow> f32" where
  "fsub a b = fadd a (fneg b)"

fun fmul :: "f32 \<Rightarrow> f32 \<Rightarrow> f32" where
  "fmul NaN _ = NaN"
| "fmul _ NaN = NaN"
| "fmul (Infinity s) (Infinity t) = Infinity (s \<noteq> t)"
| "fmul (Infinity s) (Finite t n) = (if n = 0 then NaN else Infinity (s \<noteq> t))"
| "fmul (Finite s m) (Infinity t) = (if m = 0 then NaN else Infinity (s \<noteq> t))"
| "fmul (Finite s m) (Finite t n) = f32_round (s \<noteq> t) (m * n) (2 ^ 149)"

fun fdiv :: "f32 \<Rightarrow> f32 \<Rightarrow> f32" where
  "fdiv NaN _ = NaN"
| "fdiv _ NaN = NaN"
| "fdiv (Infinity s) (Infinity t) = NaN"
| "fdiv (Infinity s) (Finite t n) = Infinity (s \<noteq> t)"
| "fdiv (Finite s m) (Infinity t) = Finite (s \<noteq> t) 0"
| "fdiv (Finite s m) (Finite t n) =
     (if n = 0 then (if m = 0 then NaN else Infinity (s \<noteq> t))
      else f32_round (s \<noteq> t) (m * 2 ^ 149) n)"

text \<open>
  The order of the comparison operators: NaN compares false with everything, the two
  zeros are equal.
\<close>

fun fkey :: "f32 \<Rightarrow> int" where
  "fkey NaN = 0"
| "fkey (Infinity s) = (if s then - (2 ^ 277) else 2 ^ 277)"
| "fkey (Finite s m) = sval s m"

definition flt :: "f32 \<Rightarrow> f32 \<Rightarrow> bool" where
  "flt a b = (a \<noteq> NaN \<and> b \<noteq> NaN \<and> fkey a < fkey b)"

definition fle :: "f32 \<Rightarrow> f32 \<Rightarrow> bool" where
  "fle a b = (a \<noteq> NaN \<and> b \<noteq> NaN \<and> fkey a \<le> fkey b)"

definition fgt :: "f32 \<Rightarrow> f32 \<Rightarrow> bool" where
  "fgt a b = flt b a"

fun fabsf :: "f32 \<Rightarrow> f32" where
  "fabsf NaN = NaN"
| "fabsf (Infinity s) = Infinity False"
| "fabsf (Finite s m) = Finite False m"

text \<open>
  A non-negative decimal literal with the suffix \<open>f\<close>, written as the fraction \<open>p / q\<close>
  (\<open>1e-9f\<close> is \<open>f32_lit 1 (10 ^ 9)\<close>), is the binary32 value nearest to it.
\<close>

definition f32_lit :: "nat \<Rightarrow> nat \<Rightarrow> f32" where
  "f32_lit p q = f32_round False (p * 2 ^ 149) q"

text \<open>The magnitudes that binary32 has: below \<open>2^128\<close>, at most 24 significant bits.\<close>

definition representable :: "nat \<Rightarrow> bool" where
  "representable m = (m < 2 ^ 277 \<and> 2 ^ (bitlen_nat m - 24) dvd m)"

fun is_f32 :: "f32 \<Rightarrow> bool" where
  "is_f32 (Finite s m) = representable m"
| "is_f32 _ = True"

fun is_finite :: "f32 \<Rightarrow> bool" where
  "is_finite (Finite s m) = True"
| "is_finite _ = False"

text \<open>
  The conversion \<open>(int32_t) x\<close> truncates towards zero; it is undefined (\<open>None\<close>) for NaN,
  the infinities and values outside the range of \<open>int32_t\<close>.
\<close>

fun f32_to_int32 :: "f32 \<Rightarrow> int option" where
  "f32_to_int32 (Finite s m) =
     (let v = sval s (m div 2 ^ 149)
      in if - (2 ^ 31) \<le> v \<and> v < 2 ^ 31 then Some v else None)"
| "f32_to_int32 _ = None"

text \<open>The C operator \<open>%\<close> on \<open>int\<close>: the remainder has the sign of the dividend.\<close>

definition c_rem :: "int \<Rightarrow> int \<Rightarrow> int" where
  "c_rem a b = sgn a * (\<bar>a\<bar> mod \<bar>b\<bar>)"

section \<open>TxPID: the scaler and the comparator\<close>

type_synonym uint8 = "8 word"

text \<open>\<open>static float scale(float val, float inMin, float inMax, float outMin, float outMax)\<close>\<close>

definition scale :: "f32 \<Rightarrow> f32 \<Rightarrow> f32 \<Rightarrow> f32 \<Rightarrow> f32 \<Rightarrow> f32" where
  "scale val inMin inMax outMin outMax =
     (let val = (if fgt val inMax then inMax else val);
          val = (if flt val inMin then inMin else val);
          val = (if fle inMax inMin then f32_lit 0 1
                 else fdiv (fsub val inMin) (fsub inMax inMin));
          (outMin, outMax, val) =
             (if fgt outMin outMax then (outMax, outMin, fsub (f32_lit 1 1) val)
              else (outMin, outMax, val))
      in fadd (fmul (fsub outMax outMin) val) outMin)"

text \<open>
  \<open>static uint8_t update(float *var, float val)\<close>: the pair is the content of \<open>*var\<close>
  after the call and the value returned.
\<close>

definition update :: "f32 \<Rightarrow> f32 \<Rightarrow> f32 \<times> uint8" where
  "update var val =
     (if fgt (fabsf (fsub var val)) (f32_lit 1 (10 ^ 9)) then (val, 1) else (var, 0))"

section \<open>TxPID: the UAVObjects\<close>

text \<open>
  Modelled from the spec: the UAVObject records, whose generated headers are not part of
  the sources.  The records hold the fields that \<open>txpid.c\<close> names; a bank is the record
  of the PID tuples that the dispatch switch addresses (rate tuples with \<open>Kp\<close>, \<open>Ki\<close>,
  \<open>Kd\<close>, \<open>ILimit\<close>; attitude tuples with \<open>Kp\<close>, \<open>Ki\<close>, \<open>ILimit\<close>, here with the prefix
  \<open>PI_\<close>).  The field groups \<open>PIDs\<close>, \<open>Inputs\<close>, \<open>MinPID\<close> and \<open>MaxPID\<close>, which the source
  indexes through \<open>cast_struct_to_array\<close>, are lists; their common length is
  \<open>TXPIDSETTINGS_PIDS_NUMELEM\<close>.
\<close>

record RatePID =
  Kp :: f32
  Ki :: f32
  Kd :: f32
  ILimit :: f32

record AttitudePI =
  PI_Kp :: f32
  PI_Ki :: f32
  PI_ILimit :: f32

record StabilizationBankData =
  RollRatePID :: RatePID
  PitchRatePID :: RatePID
  YawRatePID :: RatePID
  RollPI :: AttitudePI
  PitchPI :: AttitudePI
  YawPI :: AttitudePI

record StabilizationSettingsData =
  GyroTau :: f32

record AccessoryDesiredData =
  AccessoryVal :: f32

text \<open>
  Modelled from the spec: the target identifiers \<open>TXPIDSETTINGS_PIDS_*\<close>, which are
  \<open>DISABLED\<close> and the \<open>case\<close> labels of the dispatch switch.  \<open>PIDS_UNLISTED\<close> stands for
  every other value of the \<open>uint8_t\<close> field.
\<close>

datatype pids =
    PIDS_DISABLED
  | PIDS_ROLLRATEKP | PIDS_ROLLRATEKI | PIDS_ROLLRATEKD | PIDS_ROLLRATEILIMIT
  | PIDS_ROLLATTITUDEKP | PIDS_ROLLATTITUDEKI | PIDS_ROLLATTITUDEILIMIT
  | PIDS_PITCHRATEKP | PIDS_PITCHRATEKI | PIDS_PITCHRATEKD | PIDS_PITCHRATEILIMIT
  | PIDS_PITCHATTITUDEKP | PIDS_PITCHATTITUDEKI | PIDS_PITCHATTITUDEILIMIT
  | PIDS_ROLLPITCHRATEKP | PIDS_ROLLPITCHRATEKI | PIDS_ROLLPITCHRATEKD
  | PIDS_ROLLPITCHRATEILIMIT
  | PIDS_ROLLPITCHATTITUDEKP | PIDS_ROLLPITCHATTITUDEKI | PIDS_ROLLPITCHATTITUDEILIMIT
  | PIDS_YAWRATEKP | PIDS_YAWRATEKI | PIDS_YAWRATEKD | PIDS_YAWRATEILIMIT
  | PIDS_YAWATTITUDEKP | PIDS_YAWATTITUDEKI | PIDS_YAWATTITUDEILIMIT
  | PIDS_GYROTAU
  | PIDS_UNLISTED

record TxPIDSettingsData =
  UpdateMode :: uint8
  PIDs :: "pids list"
  Inputs :: "uint8 list"
  MinPID :: "f32 list"
  MaxPID :: "f32 list"
  ThrottleRange_Min :: f32
  ThrottleRange_Max :: f32

text \<open>The objects that a tick reads or writes, each with its current value.\<close>

record uavobjects =
  TxPIDSettings :: TxPIDSettingsData
  FlightStatusArmed :: uint8
  StabilizationSettingsBank1 :: StabilizationBankData
  StabilizationSettingsBank2 :: StabilizationBankData
  StabilizationSettingsBank3 :: StabilizationBankData
  StabilizationSettings :: StabilizationSettingsData
  ManualControlCommandThrottle :: f32
  AccessoryDesired :: "AccessoryDesiredData list"

text \<open>
  Modelled from the spec: \<open>AccessoryDesiredInstGet(instId, &accessory)\<close>, the instance
  read of the object bus, which is not part of the sources.  It returns 0 and fills
  \<open>accessory\<close> when the instance is present (\<open>Some\<close>), and fails otherwise (\<open>None\<close>).
\<close>

definition AccessoryDesiredInstGet :: "uavobjects \<Rightarrow> nat \<Rightarrow> AccessoryDesiredData option" where
  "AccessoryDesiredInstGet U instId =
     (if instId < length (AccessoryDesired U) then Some (AccessoryDesired U ! instId)
      else None)"

text \<open>The calls that write an object.\<close>

datatype setcall =
    StabilizationSettingsSet StabilizationSettingsData
  | StabilizationSettingsBank1Set StabilizationBankData
  | StabilizationSettingsBank2Set StabilizationBankData
  | StabilizationSettingsBank3Set StabilizationBankData

fun do_set :: "uavobjects \<Rightarrow> setcall \<Rightarrow> uavobjects" where
  "do_set U (StabilizationSettingsSet d) = U\<lparr>StabilizationSettings := d\<rparr>"
| "do_set U (StabilizationSettingsBank1Set d) = U\<lparr>StabilizationSettingsBank1 := d\<rparr>"
| "do_set U (StabilizationSettingsBank2Set d) = U\<lparr>StabilizationSettingsBank2 := d\<rparr>"
| "do_set U (StabilizationSettingsBank3Set d) = U\<lparr>StabilizationSettingsBank3 := d\<rparr>"

fun is_bank_set :: "setcall \<Rightarrow> bool" where
  "is_bank_set (StabilizationSettingsSet d) = False"
| "is_bank_set _ = True"

fun is_stab_set :: "setcall \<Rightarrow> bool" where
  "is_stab_set (StabilizationSettingsSet d) = True"
| "is_stab_set _ = False"

text \<open>
  The constants of the generated headers that \<open>updatePIDs\<close> compares with, and the
  handle of the AccessoryDesired object; their values are not in the sources.
\<close>

record txpid_consts =
  AccessoryDesiredHandle :: nat
  UPDATEMODE_NEVER :: uint8
  UPDATEMODE_WHENARMED :: uint8
  ARMED_DISARMED :: uint8

text \<open>
  Modelled from the spec: the input identifiers, whose definitions are in a generated
  header that is not part of the sources (\<open>THROTTLE = 0\<close>, \<open>ACCESSORYk = k + 1\<close>).
\<close>

definition INPUTS_THROTTLE :: uint8 where
  "INPUTS_THROTTLE = 0"

definition INPUTS_ACCESSORY0 :: uint8 where
  "INPUTS_ACCESSORY0 = 1"

section \<open>TxPID: the periodic task\<close>

text \<open>The addresses \<open>&bank.G.F\<close> that the dispatch switch passes to \<open>update\<close>.\<close>

datatype bank_field =
    RollRatePID_Kp | RollRatePID_Ki | RollRatePID_Kd | RollRatePID_ILimit
  | PitchRatePID_Kp | PitchRatePID_Ki | PitchRatePID_Kd | PitchRatePID_ILimit
  | YawRatePID_Kp | YawRatePID_Ki | YawRatePID_Kd | YawRatePID_ILimit
  | RollPI_Kp | RollPI_Ki | RollPI_ILimit
  | PitchPI_Kp | PitchPI_Ki | PitchPI_ILimit
  | YawPI_Kp | YawPI_Ki | YawPI_ILimit

fun bank_get :: "bank_field \<Rightarrow> StabilizationBankData \<Rightarrow> f32" where
  "bank_get RollRatePID_Kp b = Kp (RollRatePID b)"
| "bank_get RollRatePID_Ki b = Ki (RollRatePID b)"
| "bank_get RollRatePID_Kd b = Kd (RollRatePID b)"
| "bank_get RollRatePID_ILimit b = ILimit (RollRatePID b)"
| "bank_get PitchRatePID_Kp b = Kp (PitchRatePID b)"
| "bank_get PitchRatePID_Ki b = Ki (PitchRatePID b)"
| "bank_get PitchRatePID_Kd b = Kd (PitchRatePID b)"
| "bank_get PitchRatePID_ILimit b = ILimit (PitchRatePID b)"
| "bank_get YawRatePID_Kp b = Kp (YawRatePID b)"
| "bank_get YawRatePID_Ki b = Ki (YawRatePID b)"
| "bank_get YawRatePID_Kd b = Kd (YawRatePID b)"
| "bank_get YawRatePID_ILimit b = ILimit (YawRatePID b)"
| "bank_get RollPI_Kp b = PI_Kp (RollPI b)"
| "bank_get RollPI_Ki b = PI_Ki (RollPI b)"
| "bank_get RollPI_ILimit b = PI_ILimit (RollPI b)"
| "bank_get PitchPI_Kp b = PI_Kp (PitchPI b)"
| "bank_get PitchPI_Ki b = PI_Ki (PitchPI b)"
| "bank_get PitchPI_ILimit b = PI_ILimit (PitchPI b)"
| "bank_get YawPI_Kp b = PI_Kp (YawPI b)"
| "bank_get YawPI_Ki b = PI_Ki (YawPI b)"
| "bank_get YawPI_ILimit b = PI_ILimit (YawPI b)"

fun bank_put :: "bank_field \<Rightarrow> f32 \<Rightarrow> StabilizationBankData \<Rightarrow> StabilizationBankData" where
  "bank_put RollRatePID_Kp v b = b\<lparr>RollRatePID := (RollRatePID b)\<lparr>Kp := v\<rparr>\<rparr>"
| "bank_put RollRatePID_Ki v b = b\<lparr>RollRatePID := (RollRatePID b)\<lparr>Ki := v\<rparr>\<rparr>"
| "bank_put RollRatePID_Kd v b = b\<lparr>RollRatePID := (RollRatePID b)\<lparr>Kd := v\<rparr>\<rparr>"
| "bank_put RollRatePID_ILimit v b = b\<lparr>RollRatePID := (RollRatePID b)\<lparr>ILimit := v\<rparr>\<rparr>"
| "bank_put PitchRatePID_Kp v b = b\<lparr>PitchRatePID := (PitchRatePID b)\<lparr>Kp := v\<rparr>\<rparr>"
| "bank_put PitchRatePID_Ki v b = b\<lparr>PitchRatePID := (PitchRatePID b)\<lparr>Ki := v\<rparr>\<rparr>"
| "bank_put PitchRatePID_Kd v b = b\<lparr>PitchRatePID := (PitchRatePID b)\<lparr>Kd := v\<rparr>\<rparr>"
| "bank_put PitchRatePID_ILimit v b = b\<lparr>PitchRatePID := (PitchRatePID b)\<lparr>ILimit := v\<rparr>\<rparr>"
| "bank_put YawRatePID_Kp v b = b\<lparr>YawRatePID := (YawRatePID b)\<lparr>Kp := v\<rparr>\<rparr>"
| "bank_put YawRatePID_Ki v b = b\<lparr>YawRatePID := (YawRatePID b)\<lparr>Ki := v\<rparr>\<rparr>"
| "bank_put YawRatePID_Kd v b = b\<lparr>YawRatePID := (YawRatePID b)\<lparr>Kd := v\<rparr>\<rparr>"
| "bank_put YawRatePID_ILimit v b = b\<lparr>YawRatePID := (YawRatePID b)\<lparr>ILimit := v\<rparr>\<rparr>"
| "bank_put RollPI_Kp v b = b\<lparr>RollPI := (RollPI b)\<lparr>PI_Kp := v\<rparr>\<rparr>"
| "bank_put RollPI_Ki v b = b\<lparr>RollPI := (RollPI b)\<lparr>PI_Ki := v\<rparr>\<rparr>"
| "bank_put RollPI_ILimit v b = b\<lparr>RollPI := (RollPI b)\<lparr>PI_ILimit := v\<rparr>\<rparr>"
| "bank_put PitchPI_Kp v b = b\<lparr>PitchPI := (PitchPI b)\<lparr>PI_Kp := v\<rparr>\<rparr>"
| "bank_put PitchPI_Ki v b = b\<lparr>PitchPI := (PitchPI b)\<lparr>PI_Ki := v\<rparr>\<rparr>"
| "bank_put PitchPI_ILimit v b = b\<lparr>PitchPI := (PitchPI b)\<lparr>PI_ILimit := v\<rparr>\<rparr>"
| "bank_put YawPI_Kp v b = b\<lparr>YawPI := (YawPI b)\<lparr>PI_Kp := v\<rparr>\<rparr>"
| "bank_put YawPI_Ki v b = b\<lparr>YawPI := (YawPI b)\<lparr>PI_Ki := v\<rparr>\<rparr>"
| "bank_put YawPI_ILimit v b = b\<lparr>YawPI := (YawPI b)\<lparr>PI_ILimit := v\<rparr>\<rparr>"

text \<open>The local variables of \<open>updatePIDs\<close> that the slot loop changes.\<close>

record locals =
  bank :: StabilizationBankData
  stab :: StabilizationSettingsData
  needsUpdateBank :: uint8
  needsUpdateStab :: uint8

text \<open>\<open>needsUpdateBank |= update(&bank.G.F, value);\<close>\<close>

definition update_bank :: "bank_field \<Rightarrow> f32 \<Rightarrow> locals \<Rightarrow> locals" where
  "update_bank f val l =
     (let (v, r) = update (bank_get f (bank l)) val
      in l\<lparr>bank := bank_put f v (bank l), needsUpdateBank := needsUpdateBank l OR r\<rparr>)"

text \<open>\<open>needsUpdateStab |= update(&stab.GyroTau, value);\<close>\<close>

definition update_stab :: "f32 \<Rightarrow> locals \<Rightarrow> locals" where
  "update_stab val l =
     (let (v, r) = update (GyroTau (stab l)) val
      in l\<lparr>stab := (stab l)\<lparr>GyroTau := v\<rparr>, needsUpdateStab := needsUpdateStab l OR r\<rparr>)"

datatype error = PIOS_Assert_failed

text \<open>
  The dispatch switch; its \<open>default\<close> label is \<open>PIOS_Assert(0)\<close>, which does not return.
\<close>

fun dispatch :: "pids \<Rightarrow> f32 \<Rightarrow> locals \<Rightarrow> error + locals" where
  "dispatch PIDS_ROLLRATEKP v l = Inr (update_bank RollRatePID_Kp v l)"
| "dispatch PIDS_ROLLRATEKI v l = Inr (update_bank RollRatePID_Ki v l)"
| "dispatch PIDS_ROLLRATEKD v l = Inr (update_bank RollRatePID_Kd v l)"
| "dispatch PIDS_ROLLRATEILIMIT v l = Inr (update_bank RollRatePID_ILimit v l)"
| "dispatch PIDS_ROLLATTITUDEKP v l = Inr (update_bank RollPI_Kp v l)"
| "dispatch PIDS_ROLLATTITUDEKI v l = Inr (update_bank RollPI_Ki v l)"
| "dispatch PIDS_ROLLATTITUDEILIMIT v l = Inr (update_bank RollPI_ILimit v l)"
| "dispatch PIDS_PITCHRATEKP v l = Inr (update_bank PitchRatePID_Kp v l)"
| "dispatch PIDS_PITCHRATEKI v l = Inr (update_bank PitchRatePID_Ki v l)"
| "dispatch PIDS_PITCHRATEKD v l = Inr (update_bank PitchRatePID_Kd v l)"
| "dispatch PIDS_PITCHRATEILIMIT v l = Inr (update_bank PitchRatePID_ILimit v l)"
| "dispatch PIDS_PITCHATTITUDEKP v l = Inr (update_bank PitchPI_Kp v l)"
| "dispatch PIDS_PITCHATTITUDEKI v l = Inr (update_bank PitchPI_Ki v l)"
| "dispatch PIDS_PITCHATTITUDEILIMIT v l = Inr (update_bank PitchPI_ILimit v l)"
| "dispatch PIDS_ROLLPITCHRATEKP v l =
     Inr (update_bank PitchRatePID_Kp v (update_bank RollRatePID_Kp v l))"
| "dispatch PIDS_ROLLPITCHRATEKI v l =
     Inr (update_bank PitchRatePID_Ki v (update_bank RollRatePID_Ki v l))"
| "dispatch PIDS_ROLLPITCHRATEKD v l =
     Inr (update_bank PitchRatePID_Kd v (update_bank RollRatePID_Kd v l))"
| "dispatch PIDS_ROLLPITCHRATEILIMIT v l =
     Inr (update_bank PitchRatePID_ILimit v (update_bank RollRatePID_ILimit v l))"
| "dispatch PIDS_ROLLPITCHATTITUDEKP v l =
     Inr (update_bank PitchPI_Kp v (update_bank RollPI_Kp v l))"
| "dispatch PIDS_ROLLPITCHATTITUDEKI v l =
     Inr (update_bank PitchPI_Ki v (update_bank RollPI_Ki v l))"
| "dispatch PIDS_ROLLPITCHATTITUDEILIMIT v l =
     Inr (update_bank PitchPI_ILimit v (update_bank RollPI_ILimit v l))"
| "dispatch PIDS_YAWRATEKP v l = Inr (update_bank YawRatePID_Kp v l)"
| "dispatch PIDS_YAWRATEKI v l = Inr (update_bank YawRatePID_Ki v l)"
| "dispatch PIDS_YAWRATEKD v l = Inr (update_bank YawRatePID_Kd v l)"
| "dispatch PIDS_YAWRATEILIMIT v l = Inr (update_bank YawRatePID_ILimit v l)"
| "dispatch PIDS_YAWATTITUDEKP v l = Inr (update_bank YawPI_Kp v l)"
| "dispatch PIDS_YAWATTITUDEKI v l = Inr (update_bank YawPI_Ki v l)"
| "dispatch PIDS_YAWATTITUDEILIMIT v l = Inr (update_bank YawPI_ILimit v l)"
| "dispatch PIDS_GYROTAU v l = Inr (update_stab v l)"
| "dispatch _ v l = Inl PIOS_Assert_failed"

text \<open>
  The value that slot \<open>i\<close> computes from its input; \<open>None\<close> is the \<open>continue\<close> of a slot
  whose accessory instance does not exist.  The instance number is the \<open>int\<close> difference
  of the two identifiers, converted to the \<open>uint16_t\<close> parameter.
\<close>

definition slot_value :: "uavobjects \<Rightarrow> TxPIDSettingsData \<Rightarrow> nat \<Rightarrow> f32 option" where
  "slot_value U inst i =
     (if Inputs inst ! i = INPUTS_THROTTLE
      then Some (scale (ManualControlCommandThrottle U)
                   (ThrottleRange_Min inst) (ThrottleRange_Max inst)
                   (MinPID inst ! i) (MaxPID inst ! i))
      else case AccessoryDesiredInstGet U
                  (unat (word_of_int (uint (Inputs inst ! i) - uint INPUTS_ACCESSORY0)
                           :: 16 word))
           of Some accessory \<Rightarrow>
                Some (scale (AccessoryVal accessory) (fneg (f32_lit 1 1)) (f32_lit 1 1)
                        (MinPID inst ! i) (MaxPID inst ! i))
            | None \<Rightarrow> None)"

text \<open>The body of the slot loop for index \<open>i\<close>.\<close>

definition slot_body :: "uavobjects \<Rightarrow> TxPIDSettingsData \<Rightarrow> nat \<Rightarrow> locals \<Rightarrow> error + locals" where
  "slot_body U inst i l =
     (if PIDs inst ! i \<noteq> PIDS_DISABLED
      then (case slot_value U inst i of
              Some v \<Rightarrow> dispatch (PIDs inst ! i) v l
            | None \<Rightarrow> Inr l)
      else Inr l)"

text \<open>
  The slot loop over the indices it has still to visit; a failed assertion ends it.  The
  counter of the source is a \<open>uint8_t\<close>, which the number of slots never reaches.
\<close>

fun slot_loop :: "uavobjects \<Rightarrow> TxPIDSettingsData \<Rightarrow> nat list \<Rightarrow> locals \<Rightarrow> error + locals" where
  "slot_loop U inst [] l = Inr l"
| "slot_loop U inst (i # is) l =
     (case slot_body U inst i l of
        Inl e \<Rightarrow> Inl e
      | Inr l' \<Rightarrow> slot_loop U inst is l')"

text \<open>The first \<open>switch (inst.UpdateMode)\<close>: the bank that is loaded, if any.\<close>

definition bank_load :: "uavobjects \<Rightarrow> uint8 \<Rightarrow> StabilizationBankData option" where
  "bank_load U mode =
     (if mode = 0 then Some (StabilizationSettingsBank1 U)
      else if mode = 1 then Some (StabilizationSettingsBank2 U)
      else if mode = 2 then Some (StabilizationSettingsBank2 U)
      else None)"

text \<open>The second \<open>switch (inst.UpdateMode)\<close>: the call that stores the bank, if any.\<close>

definition bank_store :: "uint8 \<Rightarrow> StabilizationBankData \<Rightarrow> setcall list" where
  "bank_store mode b =
     (if mode = 0 then [StabilizationSettingsBank1Set b]
      else if mode = 1 then [StabilizationSettingsBank2Set b]
      else if mode = 2 then [StabilizationSettingsBank2Set b]
      else [])"

text \<open>
  \<open>static void updatePIDs(UAVObjEvent *ev)\<close>, for an event of object \<open>ev_obj\<close>.  The result
  is the sequence of object writes of the tick, or the failed assertion, before which
  nothing is written.
\<close>

definition updatePIDs :: "txpid_consts \<Rightarrow> nat \<Rightarrow> uavobjects \<Rightarrow> error + setcall list" where
  "updatePIDs K ev_obj U =
     (if ev_obj \<noteq> AccessoryDesiredHandle K then Inr []
      else let inst = TxPIDSettings U
      in if UpdateMode inst = UPDATEMODE_NEVER K then Inr []
      else let armed = FlightStatusArmed U
      in if UpdateMode inst = UPDATEMODE_WHENARMED K \<and> armed = ARMED_DISARMED K then Inr []
      else case bank_load U (UpdateMode inst) of
        None \<Rightarrow> Inr []
      | Some b \<Rightarrow>
         (case slot_loop U inst [0 ..< length (PIDs inst)]
                 \<lparr>bank = b, stab = StabilizationSettings U,
                  needsUpdateBank = 0, needsUpdateStab = 0\<rparr>
          of Inl e \<Rightarrow> Inl e
           | Inr l \<Rightarrow>
               Inr ((if needsUpdateStab l \<noteq> 0 then [StabilizationSettingsSet (stab l)] else [])
                    @ (if needsUpdateBank l \<noteq> 0 then bank_store (UpdateMode inst) (bank l)
                       else []))))"

text \<open>The objects after the writes of a tick.\<close>

definition after_tick :: "txpid_consts \<Rightarrow> nat \<Rightarrow> uavobjects \<Rightarrow> uavobjects" where
  "after_tick K ev_obj U =
     (case updatePIDs K ev_obj U of Inl e \<Rightarrow> U | Inr ws \<Rightarrow> foldl do_set U ws)"

section \<open>The sine lookup\<close>

definition SIN_RESOLUTION :: int where
  "SIN_RESOLUTION = 180"

datatype lookup_error = Conversion_undefined | Out_of_bounds int

text \<open>
  A read of \<open>sin_table[i]\<close>: the table, which \<open>sin_lookup_initalize\<close> allocates and fills
  with \<open>SIN_RESOLUTION\<close> entries, is a parameter; a read outside it is an error.
\<close>

definition sin_table_read :: "(nat \<Rightarrow> f32) \<Rightarrow> int \<Rightarrow> lookup_error + f32" where
  "sin_table_read sin_table i =
     (if 0 \<le> i \<and> i < SIN_RESOLUTION then Inr (sin_table (nat i)) else Inl (Out_of_bounds i))"

text \<open>\<open>float sin_lookup_deg(float angle)\<close>\<close>

definition sin_lookup_deg :: "(nat \<Rightarrow> f32) \<Rightarrow> f32 \<Rightarrow> lookup_error + f32" where
  "sin_lookup_deg sin_table angle =
     (case f32_to_int32 angle of
        None \<Rightarrow> Inl Conversion_undefined
      | Some a \<Rightarrow>
          (let i_ang = c_rem a 360
           in if i_ang > 180
              then map_sum id fneg (sin_table_read sin_table (i_ang - 180))
              else sin_table_read sin_table i_ang))"

section \<open>Notions used in the statements\<close>

text \<open>
  The order key of the binary32 value nearest to the integer \<open>z\<close> of units; an
  overflow has the key of the infinity.
\<close>

definition round_key :: "int \<Rightarrow> int" where
  "round_key z = (if z < 0 then - int (min (rnd (nat (- z)) 1) (2 ^ 277))
                  else int (min (rnd (nat z) 1) (2 ^ 277)))"

text \<open>The C operator \<open>==\<close> on \<open>float\<close>.\<close>

definition feq :: "f32 \<Rightarrow> f32 \<Rightarrow> bool" where
  "feq a b = (a \<noteq> NaN \<and> b \<noteq> NaN \<and> fkey a = fkey b)"

text \<open>The smaller and the larger of the two output bounds, as \<open>scale\<close> orders them.\<close>

definition out_lo :: "f32 \<Rightarrow> f32 \<Rightarrow> f32" where
  "out_lo outMin outMax = (if fgt outMin outMax then outMax else outMin)"

definition out_hi :: "f32 \<Rightarrow> f32 \<Rightarrow> f32" where
  "out_hi outMin outMax = (if fgt outMin outMax then outMin else outMax)"

text \<open>The test of \<open>update\<close>: \<open>fabsf(d - v) > 1e-9f\<close>.\<close>

definition differs :: "f32 \<Rightarrow> f32 \<Rightarrow> bool" where
  "differs d v = fgt (fabsf (fsub d v)) (f32_lit 1 (10 ^ 9))"

text \<open>The locals at the start of the slot loop, with the loaded bank \<open>b\<close>.\<close>

definition tick_start :: "uavobjects \<Rightarrow> StabilizationBankData \<Rightarrow> locals" where
  "tick_start U b =
     \<lparr>bank = b, stab = StabilizationSettings U, needsUpdateBank = 0, needsUpdateStab = 0\<rparr>"

text \<open>The tick gets past the guards at the head of \<open>updatePIDs\<close>.\<close>

definition tick_runs :: "txpid_consts \<Rightarrow> nat \<Rightarrow> uavobjects \<Rightarrow> bool" where
  "tick_runs K ev_obj U =
     (ev_obj = AccessoryDesiredHandle K
      \<and> UpdateMode (TxPIDSettings U) \<noteq> UPDATEMODE_NEVER K
      \<and> \<not> (UpdateMode (TxPIDSettings U) = UPDATEMODE_WHENARMED K
            \<and> FlightStatusArmed U = ARMED_DISARMED K))"

text \<open>A tick that returns writes nothing.\<close>

definition no_writes :: "txpid_consts \<Rightarrow> nat \<Rightarrow> uavobjects \<Rightarrow> bool" where
  "no_writes K ev_obj U = (case updatePIDs K ev_obj U of Inl e \<Rightarrow> True | Inr ws \<Rightarrow> ws = [])"

text \<open>
  The destinations of a target identifier, in the order in which its \<open>case\<close> of the
  dispatch switch updates them (see \<open>dispatch_targets\<close> below); this is the dispatch
  table of the specification.  An identifier without a \<open>case\<close> has none.
\<close>

datatype target = Bank_field bank_field | Stab_GyroTau

fun targets :: "pids \<Rightarrow> target list" where
  "targets PIDS_ROLLRATEKP = [Bank_field RollRatePID_Kp]"
| "targets PIDS_ROLLRATEKI = [Bank_field RollRatePID_Ki]"
| "targets PIDS_ROLLRATEKD = [Bank_field RollRatePID_Kd]"
| "targets PIDS_ROLLRATEILIMIT = [Bank_field RollRatePID_ILimit]"
| "targets PIDS_ROLLATTITUDEKP = [Bank_field RollPI_Kp]"
| "targets PIDS_ROLLATTITUDEKI = [Bank_field RollPI_Ki]"
| "targets PIDS_ROLLATTITUDEILIMIT = [Bank_field RollPI_ILimit]"
| "targets PIDS_PITCHRATEKP = [Bank_field PitchRatePID_Kp]"
| "targets PIDS_PITCHRATEKI = [Bank_field PitchRatePID_Ki]"
| "targets PIDS_PITCHRATEKD = [Bank_field PitchRatePID_Kd]"
| "targets PIDS_PITCHRATEILIMIT = [Bank_field PitchRatePID_ILimit]"
| "targets PIDS_PITCHATTITUDEKP = [Bank_field PitchPI_Kp]"
| "targets PIDS_PITCHATTITUDEKI = [Bank_field PitchPI_Ki]"
| "targets PIDS_PITCHATTITUDEILIMIT = [Bank_field PitchPI_ILimit]"
| "targets PIDS_ROLLPITCHRATEKP = [Bank_field RollRatePID_Kp, Bank_field PitchRatePID_Kp]"
| "targets PIDS_ROLLPITCHRATEKI = [Bank_field RollRatePID_Ki, Bank_field PitchRatePID_Ki]"
| "targets PIDS_ROLLPITCHRATEKD = [Bank_field RollRatePID_Kd, Bank_field PitchRatePID_Kd]"
| "targets PIDS_ROLLPITCHRATEILIMIT =
     [Bank_field RollRatePID_ILimit, Bank_field PitchRatePID_ILimit]"
| "targets PIDS_ROLLPITCHATTITUDEKP = [Bank_field RollPI_Kp, Bank_field PitchPI_Kp]"
| "targets PIDS_ROLLPITCHATTITUDEKI = [Bank_field RollPI_Ki, Bank_field PitchPI_Ki]"
| "targets PIDS_ROLLPITCHATTITUDEILIMIT = [Bank_field RollPI_ILimit, Bank_field PitchPI_ILimit]"
| "targets PIDS_YAWRATEKP = [Bank_field YawRatePID_Kp]"
| "targets PIDS_YAWRATEKI = [Bank_field YawRatePID_Ki]"
| "targets PIDS_YAWRATEKD = [Bank_field YawRatePID_Kd]"
| "targets PIDS_YAWRATEILIMIT = [Bank_field YawRatePID_ILimit]"
| "targets PIDS_YAWATTITUDEKP = [Bank_field YawPI_Kp]"
| "targets PIDS_YAWATTITUDEKI = [Bank_field YawPI_Ki]"
| "targets PIDS_YAWATTITUDEILIMIT = [Bank_field YawPI_ILimit]"
| "targets PIDS_GYROTAU = [Stab_GyroTau]"
| "targets _ = []"

fun target_get :: "target \<Rightarrow> locals \<Rightarrow> f32" where
  "target_get (Bank_field f) l = bank_get f (bank l)"
| "target_get Stab_GyroTau l = GyroTau (stab l)"

fun update_target :: "target \<Rightarrow> f32 \<Rightarrow> locals \<Rightarrow> locals" where
  "update_target (Bank_field f) v l = update_bank f v l"
| "update_target Stab_GyroTau v l = update_stab v l"

text \<open>The destinations that slot \<open>i\<close> updates in a tick on \<open>U\<close>.\<close>

definition slot_targets :: "uavobjects \<Rightarrow> nat \<Rightarrow> target list" where
  "slot_targets U i =
     (if PIDs (TxPIDSettings U) ! i = PIDS_DISABLED \<or> slot_value U (TxPIDSettings U) i = None
      then [] else targets (PIDs (TxPIDSettings U) ! i))"

text \<open>No destination is updated by two slots.\<close>

definition no_shared_target :: "uavobjects \<Rightarrow> bool" where
  "no_shared_target U =
     (\<forall>i < length (PIDs (TxPIDSettings U)). \<forall>j < length (PIDs (TxPIDSettings U)).
        i \<noteq> j \<longrightarrow> set (slot_targets U i) \<inter> set (slot_targets U j) = {})"

text \<open>
  Slot \<open>i\<close> is steady for the locals \<open>l\<close>: it is disabled, or its input does not resolve,
  or its scaled value matches each of its destinations within the epsilon of \<open>update\<close>.
\<close>

definition slot_steady :: "uavobjects \<Rightarrow> TxPIDSettingsData \<Rightarrow> locals \<Rightarrow> nat \<Rightarrow> bool" where
  "slot_steady U inst l i =
     (PIDs inst ! i = PIDS_DISABLED
      \<or> (case slot_value U inst i of
            None \<Rightarrow> True
          | Some v \<Rightarrow> (\<forall>t \<in> set (targets (PIDs inst ! i)). \<not> differs (target_get t l) v)))"

text \<open>Every slot is steady for the records that the tick loads.\<close>

definition steady :: "uavobjects \<Rightarrow> bool" where
  "steady U =
     (case bank_load U (UpdateMode (TxPIDSettings U)) of
        None \<Rightarrow> True
      | Some b \<Rightarrow> (\<forall>i < length (PIDs (TxPIDSettings U)).
                     slot_steady U (TxPIDSettings U) (tick_start U b) i))"

text \<open>
  The configuration of \<open>U\<close> with other entries for the input, the minimum and the
  maximum of slot \<open>i\<close>.
\<close>

definition with_slot :: "uavobjects \<Rightarrow> nat \<Rightarrow> uint8 \<Rightarrow> f32 \<Rightarrow> f32 \<Rightarrow> uavobjects" where
  "with_slot U i inp mn mx =
     U\<lparr>TxPIDSettings := (TxPIDSettings U)
         \<lparr>Inputs := (Inputs (TxPIDSettings U))[i := inp],
          MinPID := (MinPID (TxPIDSettings U))[i := mn],
          MaxPID := (MaxPID (TxPIDSettings U))[i := mx]\<rparr>\<rparr>"

section \<open>Concrete configurations\<close>

text \<open>
  Values for the constants of the generated headers, in the order of the options
  (\<open>Never\<close>, \<open>When Armed\<close>, \<open>Always\<close>; \<open>Disarmed\<close> first).
\<close>

definition K0 :: txpid_consts where
  "K0 = \<lparr>AccessoryDesiredHandle = 7, UPDATEMODE_NEVER = 0, UPDATEMODE_WHENARMED = 1,
          ARMED_DISARMED = 0\<rparr>"

definition zero_rate :: RatePID where
  "zero_rate = \<lparr>Kp = f32_lit 0 1, Ki = f32_lit 0 1, Kd = f32_lit 0 1, ILimit = f32_lit 0 1\<rparr>"

definition zero_pi :: AttitudePI where
  "zero_pi = \<lparr>PI_Kp = f32_lit 0 1, PI_Ki = f32_lit 0 1, PI_ILimit = f32_lit 0 1\<rparr>"

definition zero_bank :: StabilizationBankData where
  "zero_bank = \<lparr>RollRatePID = zero_rate, PitchRatePID = zero_rate, YawRatePID = zero_rate,
                 RollPI = zero_pi, PitchPI = zero_pi, YawPI = zero_pi\<rparr>"

text \<open>A bank with the roll rate Kp \<open>r\<close> and the pitch rate Kp \<open>p\<close>.\<close>

definition bank_with_kp :: "f32 \<Rightarrow> f32 \<Rightarrow> StabilizationBankData" where
  "bank_with_kp r p =
     zero_bank\<lparr>RollRatePID := zero_rate\<lparr>Kp := r\<rparr>, PitchRatePID := zero_rate\<lparr>Kp := p\<rparr>\<rparr>"

text \<open>
  One slot, throttle to the roll rate Kp over \<open>[0.001, 0.010]\<close>, in mode \<open>m\<close>, with the
  throttle at one half.
\<close>

definition U_throttle :: "uint8 \<Rightarrow> uint8 \<Rightarrow> uavobjects" where
  "U_throttle m armed =
     \<lparr>TxPIDSettings =
        \<lparr>UpdateMode = m, PIDs = [PIDS_ROLLRATEKP], Inputs = [INPUTS_THROTTLE],
         MinPID = [f32_lit 1 1000], MaxPID = [f32_lit 10 1000],
         ThrottleRange_Min = f32_lit 0 1, ThrottleRange_Max = f32_lit 1 1\<rparr>,
      FlightStatusArmed = armed,
      StabilizationSettingsBank1 = zero_bank,
      StabilizationSettingsBank2 = zero_bank,
      StabilizationSettingsBank3 = zero_bank,
      StabilizationSettings = \<lparr>GyroTau = f32_lit 0 1\<rparr>,
      ManualControlCommandThrottle = f32_lit 1 2,
      AccessoryDesired = []\<rparr>"

text \<open>
  One slot of target \<open>p\<close>, fed by the throttle at one half over the outputs
  \<open>[mn, mx]\<close>, in mode \<open>m\<close>, armed, with three banks that hold the roll and pitch rate
  Kp 1, 2 and 3.
\<close>

definition U_one :: "uint8 \<Rightarrow> pids \<Rightarrow> f32 \<Rightarrow> f32 \<Rightarrow> uavobjects" where
  "U_one m p mn mx =
     \<lparr>TxPIDSettings =
        \<lparr>UpdateMode = m, PIDs = [p], Inputs = [INPUTS_THROTTLE],
         MinPID = [mn], MaxPID = [mx],
         ThrottleRange_Min = f32_lit 0 1, ThrottleRange_Max = f32_lit 1 1\<rparr>,
      FlightStatusArmed = 2,
      StabilizationSettingsBank1 = bank_with_kp (f32_lit 1 1) (f32_lit 1 1),
      StabilizationSettingsBank2 = bank_with_kp (f32_lit 2 1) (f32_lit 2 1),
      StabilizationSettingsBank3 = bank_with_kp (f32_lit 3 1) (f32_lit 3 1),
      StabilizationSettings = \<lparr>GyroTau = f32_lit 0 1\<rparr>,
      ManualControlCommandThrottle = f32_lit 1 2,
      AccessoryDesired = []\<rparr>"

text \<open>Mode 2, one slot that sets the roll rate Kp to 5.\<close>

definition U_mode2 :: uavobjects where
  "U_mode2 = U_one 2 PIDS_ROLLRATEKP (f32_lit 5 1) (f32_lit 5 1)"

text \<open>Mode 1, one slot whose value 2 is the roll rate Kp that bank 2 holds.\<close>

definition U_steady :: uavobjects where
  "U_steady = U_one 1 PIDS_ROLLRATEKP (f32_lit 2 1) (f32_lit 2 1)"

text \<open>Mode 2, two slots on the roll rate Kp: the first sets it to 1, the second to 2.\<close>

definition U_conflict :: uavobjects where
  "U_conflict =
     (U_one 2 PIDS_ROLLRATEKP (f32_lit 1 1) (f32_lit 1 1))
       \<lparr>TxPIDSettings :=
          \<lparr>UpdateMode = 2, PIDs = [PIDS_ROLLRATEKP, PIDS_ROLLRATEKP],
           Inputs = [INPUTS_THROTTLE, INPUTS_THROTTLE],
           MinPID = [f32_lit 1 1, f32_lit 2 1], MaxPID = [f32_lit 1 1, f32_lit 2 1],
           ThrottleRange_Min = f32_lit 0 1, ThrottleRange_Max = f32_lit 1 1\<rparr>\<rparr>"

text \<open>
  Mode 2, one slot that sets the roll and pitch rate Kp to 0, on a bank 2 whose roll
  rate Kp is 1 and whose pitch rate Kp is \<open>5e-10\<close>.
\<close>

definition U_coupled :: uavobjects where
  "U_coupled =
     (U_one 2 PIDS_ROLLPITCHRATEKP (f32_lit 0 1) (f32_lit 0 1))
       \<lparr>StabilizationSettingsBank2 := bank_with_kp (f32_lit 1 1) (f32_lit 5 (10 ^ 10))\<rparr>"

text \<open>Mode 2, one slot that sets the gyro tau of the settings to 5.\<close>

definition U_gyro :: uavobjects where
  "U_gyro = U_one 2 PIDS_GYROTAU (f32_lit 5 1) (f32_lit 5 1)"

text \<open>
  Mode 2, two slots: the first sets the roll and pitch rate Kp to 5, the second the yaw
  rate Kp to 7; \<open>bank_two\<close> is bank 2 after the tick.
\<close>

definition U_two :: uavobjects where
  "U_two =
     (U_one 2 PIDS_ROLLPITCHRATEKP (f32_lit 5 1) (f32_lit 5 1))
       \<lparr>TxPIDSettings :=
          \<lparr>UpdateMode = 2, PIDs = [PIDS_ROLLPITCHRATEKP, PIDS_YAWRATEKP],
           Inputs = [INPUTS_THROTTLE, INPUTS_THROTTLE],
           MinPID = [f32_lit 5 1, f32_lit 7 1], MaxPID = [f32_lit 5 1, f32_lit 7 1],
           ThrottleRange_Min = f32_lit 0 1, ThrottleRange_Max = f32_lit 1 1\<rparr>\<rparr>"

definition bank_two :: StabilizationBankData where
  "bank_two =
     (bank_with_kp (f32_lit 5 1) (f32_lit 5 1))\<lparr>YawRatePID := zero_rate\<lparr>Kp := f32_lit 7 1\<rparr>\<rparr>"

section \<open>Evaluation of the arithmetic on concrete values\<close>

lemma bitlen_nat_0 [simp]: "bitlen_nat 0 = 0"
  by (simp add: bitlen_nat.simps)

lemma bitlen_nat_numeral [simp]:
  "bitlen_nat (numeral Num.One) = 1"
  "bitlen_nat (numeral (Num.Bit0 k)) = Suc (bitlen_nat (numeral k))"
  "bitlen_nat (numeral (Num.Bit1 k)) = Suc (bitlen_nat (numeral k))"
proof -
  show "bitlen_nat (numeral Num.One) = 1"
    by (subst bitlen_nat.simps) (simp add: bitlen_nat.simps [of 0])
  have "(numeral (Num.Bit0 k) :: nat) div 2 = numeral k"
    by simp
  then show "bitlen_nat (numeral (Num.Bit0 k)) = Suc (bitlen_nat (numeral k))"
    by (subst bitlen_nat.simps) simp
  have "(numeral (Num.Bit1 k) :: nat) div 2 = numeral k"
    by simp
  then show "bitlen_nat (numeral (Num.Bit1 k)) = Suc (bitlen_nat (numeral k))"
    by (subst bitlen_nat.simps) simp
qed

lemma bitlen_nat_1 [simp]: "bitlen_nat 1 = 1" "bitlen_nat (Suc 0) = 1"
  using bitlen_nat_numeral(1) by simp_all

lemmas f32_eval =
  rhe_def rnd_def f32_round_def sval_def fsub_def flt_def fle_def fgt_def f32_lit_def
  representable_def Let_def

lemma f32_lit_0: "f32_lit 0 1 = Finite False 0" "f32_lit 0 (Suc 0) = Finite False 0"
  by (simp_all add: f32_eval)

lemma f32_lit_1:
  "f32_lit 1 1 = Finite False (2 ^ 149)" "f32_lit (Suc 0) (Suc 0) = Finite False (2 ^ 149)"
  by (simp_all add: f32_eval)

lemma f32_lit_eps: "f32_lit 1 (10 ^ 9) = Finite False 713623826170319227308231475922468864"
  by (simp add: f32_eval)

text \<open>
  The model on values whose binary32 encoding is known: \<open>1e-9f\<close> is \<open>0x3089705F\<close>
  (significand \<open>0x89705F\<close>, exponent \<open>2^-53\<close>), \<open>0.1f\<close> is \<open>0x3DCCCCCD\<close>, \<open>1.0f / 3.0f\<close> is
  \<open>0x3EAAAAAB\<close>, \<open>0.1f + 0.2f\<close> is \<open>0.3f\<close>; the largest finite value is
  \<open>(2^24 - 1) * 2^104\<close>, half a spacing above it rounds to infinity, and half the
  smallest subnormal rounds to zero.
\<close>

lemma f32_known_values:
  "f32_lit 1 (10 ^ 9) = Finite False (9007199 * 2 ^ 96)"
  "f32_lit 1 10 = Finite False (13421773 * 2 ^ 122)"
  "fdiv (f32_lit 1 1) (f32_lit 3 1) = Finite False (11184811 * 2 ^ 124)"
  "fadd (f32_lit 1 10) (f32_lit 2 10) = f32_lit 3 10"
  "f32_lit ((2 ^ 24 - 1) * 2 ^ 104) 1 = Finite False ((2 ^ 24 - 1) * 2 ^ 253)"
  "f32_lit ((2 ^ 25 - 1) * 2 ^ 103) 1 = Infinity False"
  "fadd (f32_lit ((2 ^ 24 - 1) * 2 ^ 104) 1) (f32_lit ((2 ^ 24 - 1) * 2 ^ 104) 1)
     = Infinity False"
  "fdiv (Finite False 1) (f32_lit 2 1) = Finite False 0"
  "fdiv (Finite False 3) (f32_lit 2 1) = Finite False 2"
  by (simp_all add: f32_eval)

section \<open>Rounding: monotone, exact on binary32 values, closed\<close>

lemma bitlen_nat_pos: "0 < n \<Longrightarrow> bitlen_nat n = Suc (bitlen_nat (n div 2))"
  by (subst bitlen_nat.simps) simp

lemma bitlen_nat_upper: "n < 2 ^ bitlen_nat n"
proof (induction n rule: bitlen_nat.induct)
  case (1 n)
  show ?case
  proof (cases "n = 0")
    case True
    then show ?thesis by simp
  next
    case False
    with 1 have "n div 2 < 2 ^ bitlen_nat (n div 2)" by simp
    then have "n < 2 * 2 ^ bitlen_nat (n div 2)" by linarith
    with False show ?thesis by (simp add: bitlen_nat_pos)
  qed
qed

lemma bitlen_nat_lower: "0 < n \<Longrightarrow> 2 ^ (bitlen_nat n - 1) \<le> n"
proof (induction n rule: bitlen_nat.induct)
  case (1 n)
  show ?case
  proof (cases "n div 2 = 0")
    case True
    with 1(2) have "n = 1" by linarith
    then show ?thesis by simp
  next
    case False
    with 1 have "2 ^ (bitlen_nat (n div 2) - 1) \<le> n div 2" by simp
    then have "2 * 2 ^ (bitlen_nat (n div 2) - 1) \<le> n" by linarith
    moreover from False have "0 < bitlen_nat (n div 2)"
      by (simp add: bitlen_nat_pos)
    then have "(2::nat) * 2 ^ (bitlen_nat (n div 2) - 1) = 2 ^ bitlen_nat (n div 2)"
      by (cases "bitlen_nat (n div 2)") simp_all
    ultimately show ?thesis using 1(2) by (simp add: bitlen_nat_pos)
  qed
qed

lemma bitlen_nat_le: "n < 2 ^ k \<Longrightarrow> bitlen_nat n \<le> k"
proof (rule ccontr)
  assume n: "n < 2 ^ k" and "\<not> bitlen_nat n \<le> k"
  then have k: "k \<le> bitlen_nat n - 1" and pos: "0 < n"
    by (auto intro: gr0I)
  from k have "(2::nat) ^ k \<le> 2 ^ (bitlen_nat n - 1)"
    by (rule power_increasing) simp
  with bitlen_nat_lower [OF pos] n show False by linarith
qed

lemma bitlen_nat_gt: "2 ^ k \<le> n \<Longrightarrow> k < bitlen_nat n"
proof (rule ccontr)
  assume n: "2 ^ k \<le> n" and "\<not> k < bitlen_nat n"
  then have "(2::nat) ^ bitlen_nat n \<le> 2 ^ k"
    by (intro power_increasing) simp_all
  with bitlen_nat_upper [of n] n show False by linarith
qed

lemma bitlen_nat_mono: "m \<le> n \<Longrightarrow> bitlen_nat m \<le> bitlen_nat n"
  using bitlen_nat_le [of m "bitlen_nat n"] bitlen_nat_upper [of n] by simp

lemma bitlen_nat_eq: "2 ^ k \<le> n \<Longrightarrow> n < 2 ^ Suc k \<Longrightarrow> bitlen_nat n = Suc k"
  using bitlen_nat_le [of n "Suc k"] bitlen_nat_gt [of k n] by simp

lemma rhe_lower: "0 < q \<Longrightarrow> p div q \<le> rhe p q"
  by (simp add: rhe_def Let_def)

lemma rhe_upper: "0 < q \<Longrightarrow> rhe p q \<le> Suc (p div q)"
  by (simp add: rhe_def Let_def)

lemma rhe_ge:
  assumes "0 < q" and "k * q \<le> p"
  shows "k \<le> rhe p q"
proof -
  from assms have "k \<le> p div q"
    by (simp add: less_eq_div_iff_mult_less_eq)
  with rhe_lower [OF assms(1), of p] show ?thesis
    by linarith
qed

lemma rhe_exact: "0 < q \<Longrightarrow> rhe (k * q) q = k"
  by (simp add: rhe_def)

lemma rhe_le:
  assumes "0 < q" and "p \<le> k * q"
  shows "rhe p q \<le> k"
proof (cases "p = k * q")
  case True
  with assms show ?thesis by (simp add: rhe_exact)
next
  case False
  with assms have "p < k * q" by simp
  with assms(1) have "p div q < k"
    by (simp add: div_less_iff_less_mult)
  with rhe_upper [OF assms(1), of p] show ?thesis by simp
qed

lemma cross_div:
  assumes q: "0 < q" and q': "0 < q'" and le: "p * q' \<le> p' * q"
  shows "p div q \<le> p' div (q'::nat)"
proof -
  have "p div q * q \<le> p" by simp
  then have "p div q * q * q' \<le> p * q'" by (rule mult_le_mono1)
  with le have "p div q * q * q' \<le> p' * q" by linarith
  moreover have "p div q * q * q' = p div q * q' * q" by (simp only: ac_simps)
  ultimately have "p div q * q' * q \<le> p' * q" by simp
  with q have "p div q * q' \<le> p'" by (simp only: mult_le_cancel2)
  with q' show ?thesis
    by (simp add: less_eq_div_iff_mult_less_eq)
qed

lemma rhe_mono:
  assumes q: "0 < q" and q': "0 < q'" and le: "p * q' \<le> p' * q"
  shows "rhe p q \<le> rhe p' q'"
proof -
  define n r n' r' where "n = p div q" and "r = p mod q" and "n' = p' div q'" and "r' = p' mod q'"
  have p: "p = n * q + r" and p': "p' = n' * q' + r'"
    by (simp_all add: n_def r_def n'_def r'_def)
  have r: "r < q" and r': "r' < q'"
    using q q' by (simp_all add: r_def r'_def)
  have nn': "n \<le> n'"
    unfolding n_def n'_def using q q' le by (rule cross_div)
  show ?thesis
  proof (cases "n < n'")
    case True
    have "rhe p q \<le> Suc n"
      using rhe_upper [OF q, of p] by (simp add: n_def)
    also from True have "\<dots> \<le> n'" by simp
    also have "\<dots> \<le> rhe p' q'"
      using rhe_lower [OF q', of p'] by (simp add: n'_def)
    finally show ?thesis .
  next
    case False
    with nn' have eq: "n' = n" by simp
    from le have "n * q * q' + r * q' \<le> n * q' * q + r' * q"
      by (simp add: p p' eq add_mult_distrib)
    then have rr: "r * q' \<le> r' * q"
      by (simp add: mult.assoc mult.commute [of q])
    have a: "q' \<le> 2 * r'" if "q \<le> 2 * r"
    proof -
      from that have "q * q' \<le> 2 * r * q'" by simp
      also from rr have "\<dots> \<le> 2 * r' * q" by simp
      finally have "q' * q \<le> 2 * r' * q" by (simp add: mult.commute)
      with q show ?thesis by simp
    qed
    have b: "2 * r \<le> q" if "2 * r' \<le> q'"
    proof -
      have "2 * r * q' \<le> 2 * r' * q" using rr by simp
      also from that have "\<dots> \<le> q' * q" by simp
      finally have "2 * r * q' \<le> q * q'" by (simp add: mult.commute)
      with q' show ?thesis by simp
    qed
    have "rhe p q = (if 2 * r < q then n else if q < 2 * r then n + 1
                     else if even n then n else n + 1)"
      by (simp add: rhe_def n_def r_def)
    moreover have "rhe p' q' = (if 2 * r' < q' then n else if q' < 2 * r' then n + 1
                     else if even n then n else n + 1)"
      by (simp add: rhe_def n'_def [symmetric] r'_def [symmetric] eq)
    ultimately show ?thesis
      using a b by (auto simp add: not_less)
  qed
qed

lemma rnd_zero: "rnd 0 q = 0"
  by (simp add: rnd_def rhe_def)

lemma rnd_mono:
  assumes q: "0 < q" and q': "0 < q'" and le: "p * q' \<le> p' * q"
  shows "rnd p q \<le> rnd p' q'"
proof -
  define f s f' s' where "f = p div q" and "s = bitlen_nat f - 24"
    and "f' = p' div q'" and "s' = bitlen_nat f' - 24"
  have ff': "f \<le> f'"
    unfolding f_def f'_def using q q' le by (rule cross_div)
  then have ss': "s \<le> s'"
    unfolding s_def s'_def using bitlen_nat_mono [OF ff'] by simp
  have rnd: "rnd p q = rhe p (q * 2 ^ s) * 2 ^ s" "rnd p' q' = rhe p' (q' * 2 ^ s') * 2 ^ s'"
    by (simp_all add: rnd_def Let_def f_def s_def f'_def s'_def)
  show ?thesis
  proof (cases "s = s'")
    case True
    have "p * (q' * 2 ^ s) \<le> p' * (q * 2 ^ s)"
      using le by (simp add: mult.assoc [symmetric])
    with q q' have "rhe p (q * 2 ^ s) \<le> rhe p' (q' * 2 ^ s)"
      by (intro rhe_mono) simp_all
    with True show ?thesis by (simp add: rnd)
  next
    case False
    with ss' have lt: "s < s'" by simp
    then have s'pos: "0 < s'" by simp
    have "bitlen_nat f \<le> s + 24" by (simp add: s_def)
    with bitlen_nat_upper [of f] have "f < 2 ^ (s + 24)"
      by (meson less_le_trans one_le_numeral power_increasing)
    then have "Suc f \<le> 2 ^ (s + 24)" by simp
    have "p < Suc f * q"
      using q by (simp add: f_def dividend_less_times_div mult.commute)
    also from \<open>Suc f \<le> 2 ^ (s + 24)\<close> have "\<dots> \<le> 2 ^ (s + 24) * q"
      by (rule mult_le_mono1)
    finally have "p \<le> 2 ^ 24 * (q * 2 ^ s)"
      by (simp add: power_add mult_ac)
    with q have "rhe p (q * 2 ^ s) \<le> 2 ^ 24"
      by (intro rhe_le) simp_all
    then have "rnd p q \<le> 2 ^ 24 * 2 ^ s"
      by (simp add: rnd)
    also have "\<dots> = 2 ^ (s + 24)" by (simp add: power_add)
    also from lt have "\<dots> \<le> 2 ^ (s' + 23)"
      by (intro power_increasing) simp_all
    finally have low: "rnd p q \<le> 2 ^ (s' + 23)" .
    from s'pos have "bitlen_nat f' = s' + 24" by (simp add: s'_def)
    then have "s' + 23 < bitlen_nat f'" by simp
    then have "2 ^ (s' + 23) \<le> f'"
      using bitlen_nat_le [of f' "s' + 23"] by (meson not_less)
    then have "2 ^ (s' + 23) * q' \<le> f' * q'" by simp
    also have "\<dots> \<le> p'" by (simp add: f'_def)
    finally have "2 ^ 23 * (q' * 2 ^ s') \<le> p'"
      by (simp add: power_add mult_ac)
    with q' have "2 ^ 23 \<le> rhe p' (q' * 2 ^ s')"
      by (intro rhe_ge) simp_all
    then have "2 ^ 23 * 2 ^ s' \<le> rnd p' q'"
      by (simp add: rnd)
    then have "2 ^ (s' + 23) \<le> rnd p' q'"
      by (simp add: power_add mult.commute)
    with low show ?thesis by simp
  qed
qed

lemma rnd_exact:
  assumes "2 ^ (bitlen_nat m - 24) dvd m" and "0 < q"
  shows "rnd (m * q) q = m"
proof -
  define s where "s = bitlen_nat m - 24"
  from assms(1) obtain k where k: "m = 2 ^ s * k"
    unfolding s_def by (auto simp add: dvd_def)
  have mq: "m * q = k * (q * 2 ^ s)"
    by (simp add: k mult_ac)
  have "rhe (k * (q * 2 ^ s)) (q * 2 ^ s) = k"
    using assms(2) by (intro rhe_exact) simp
  then have e: "rhe (m * q) (q * 2 ^ s) = k"
    by (simp only: mq)
  have "rnd (m * q) q = rhe (m * q) (q * 2 ^ s) * 2 ^ s"
    using assms(2) by (simp add: rnd_def Let_def s_def)
  also have "\<dots> = k * 2 ^ s"
    by (simp only: e)
  also have "\<dots> = m"
    by (simp add: k)
  finally show ?thesis .
qed

lemma rnd_exact_1: "representable m \<Longrightarrow> rnd m 1 = m"
  using rnd_exact [of m 1] by (simp add: representable_def)

lemma rnd_mantissa_le:
  assumes q: "0 < q"
  shows "rhe p (q * 2 ^ (bitlen_nat (p div q) - 24)) \<le> 2 ^ 24"
proof -
  define f s where "f = p div q" and "s = bitlen_nat f - 24"
  have "bitlen_nat f \<le> s + 24" by (simp add: s_def)
  with bitlen_nat_upper [of f] have "f < 2 ^ (s + 24)"
    by (meson less_le_trans one_le_numeral power_increasing)
  then have "Suc f \<le> 2 ^ (s + 24)" by simp
  have "p < Suc f * q"
    using q by (simp add: f_def dividend_less_times_div mult.commute)
  also from \<open>Suc f \<le> 2 ^ (s + 24)\<close> have "\<dots> \<le> 2 ^ (s + 24) * q"
    by (rule mult_le_mono1)
  finally have "p \<le> 2 ^ 24 * (q * 2 ^ s)"
    by (simp add: power_add mult_ac)
  with q have "rhe p (q * 2 ^ s) \<le> 2 ^ 24"
    by (intro rhe_le) simp_all
  then show ?thesis by (simp add: f_def s_def)
qed

lemma rnd_closed: "0 < q \<Longrightarrow> 2 ^ (bitlen_nat (rnd p q) - 24) dvd rnd p q"
proof -
  assume q: "0 < q"
  define s k where "s = bitlen_nat (p div q) - 24" and "k = rhe p (q * 2 ^ s)"
  have m: "rnd p q = k * 2 ^ s"
    by (simp add: rnd_def Let_def s_def k_def)
  have k: "k \<le> 2 ^ 24"
    unfolding k_def s_def using q by (rule rnd_mantissa_le)
  show ?thesis
  proof (cases "k = 2 ^ 24")
    case True
    then have "rnd p q = 2 ^ (24 + s)"
      by (simp add: m power_add)
    moreover have "bitlen_nat (2 ^ (24 + s)) \<le> Suc (24 + s)"
      by (rule bitlen_nat_le) simp
    ultimately show ?thesis
      by (simp add: le_imp_power_dvd)
  next
    case False
    with k have "k < 2 ^ 24" by simp
    then have "k * 2 ^ s < 2 ^ 24 * 2 ^ s" by simp
    then have "rnd p q < 2 ^ (24 + s)"
      by (simp add: m power_add)
    then have "bitlen_nat (rnd p q) \<le> 24 + s"
      by (rule bitlen_nat_le)
    then have "bitlen_nat (rnd p q) - 24 \<le> s" by simp
    then have "(2::nat) ^ (bitlen_nat (rnd p q) - 24) dvd 2 ^ s"
      by (rule le_imp_power_dvd)
    then show ?thesis
      unfolding m [symmetric] using m by (metis dvd_mult)
  qed
qed

lemma is_f32_round: "0 < q \<Longrightarrow> is_f32 (f32_round s p q)"
  by (simp add: f32_round_def Let_def representable_def rnd_closed)

lemma fkey_round:
  "fkey (f32_round s p q)
     = (if s then - int (min (rnd p q) (2 ^ 277)) else int (min (rnd p q) (2 ^ 277)))"
  by (simp add: f32_round_def Let_def sval_def min_def)

lemma round_not_NaN: "f32_round s p q \<noteq> NaN"
  by (simp add: f32_round_def Let_def)

lemma rnd_mono_1: "m \<le> n \<Longrightarrow> rnd m 1 \<le> rnd n 1"
  by (rule rnd_mono) simp_all

lemma round_key_0: "round_key 0 = 0"
  by (simp add: round_key_def rnd_zero)

lemma round_key_nonneg: "0 \<le> z \<Longrightarrow> 0 \<le> round_key z"
  by (simp add: round_key_def)

lemma round_key_nonpos: "z \<le> 0 \<Longrightarrow> round_key z \<le> 0"
  by (cases "z = 0") (simp_all add: round_key_def rnd_zero)

lemma round_key_mono:
  assumes "z \<le> z'"
  shows "round_key z \<le> round_key z'"
proof (cases "z < 0")
  case neg: True
  show ?thesis
  proof (cases "z' < 0")
    case True
    from assms have "nat (- z') \<le> nat (- z)" by simp
    then have "rnd (nat (- z')) 1 \<le> rnd (nat (- z)) 1" by (rule rnd_mono_1)
    with neg True show ?thesis
      by (simp add: round_key_def min_le_iff_disj)
  next
    case False
    then have "0 \<le> round_key z'" by (simp add: round_key_nonneg)
    moreover from neg have "round_key z \<le> 0" by (simp add: round_key_nonpos)
    ultimately show ?thesis by simp
  qed
next
  case False
  with assms have "nat z \<le> nat z'" and "\<not> z' < 0" by simp_all
  from rnd_mono_1 [OF this(1)] False \<open>\<not> z' < 0\<close> show ?thesis
    by (simp add: round_key_def min_le_iff_disj)
qed

lemma round_key_exact:
  assumes "representable m"
  shows "round_key (sval s m) = sval s m"
proof -
  from assms have "rnd m 1 = m"
    by (rule rnd_exact_1)
  moreover from assms have "m < 2 ^ 277"
    by (simp add: representable_def)
  ultimately have "min (rnd m 1) (2 ^ 277) = m"
    by (simp only: min_def) simp
  then have k: "min (rnd m (Suc 0)) (2 ^ 277) = m"
    by simp
  show ?thesis
    using k by (cases s; cases "m = 0") (simp_all add: round_key_def sval_def rnd_zero)
qed

lemma fkey_fadd:
  assumes "is_finite a" and "is_finite b"
  shows "fadd a b \<noteq> NaN \<and> fkey (fadd a b) = round_key (fkey a + fkey b)"
proof -
  from assms obtain s m t n where ab: "a = Finite s m" "b = Finite t n"
    by (cases a; cases b) simp_all
  show ?thesis
  proof (cases "sval s m + sval t n = 0")
    case True
    then show ?thesis
      by (simp add: ab Let_def round_key_0) (simp add: sval_def)
  next
    case False
    then show ?thesis
      by (simp add: ab Let_def round_not_NaN fkey_round round_key_def)
  qed
qed

lemma fkey_fneg: "fkey (fneg a) = - fkey a"
  by (cases a) (simp_all add: sval_def)

lemma is_finite_fneg: "is_finite (fneg a) = is_finite a"
  by (cases a) simp_all

lemma is_f32_fneg: "is_f32 (fneg a) = is_f32 a"
  by (cases a) simp_all

lemma fkey_fsub:
  assumes "is_finite a" and "is_finite b"
  shows "fsub a b \<noteq> NaN \<and> fkey (fsub a b) = round_key (fkey a - fkey b)"
  using fkey_fadd [of a "fneg b"] assms
  by (simp add: fsub_def fkey_fneg is_finite_fneg)

lemma is_f32_fadd: "is_f32 (fadd a b)"
proof (cases "is_finite a \<and> is_finite b")
  case True
  then obtain s m t n where ab: "a = Finite s m" "b = Finite t n"
    by (cases a; cases b) simp_all
  show ?thesis
    by (simp add: ab Let_def is_f32_round) (simp add: representable_def)
next
  case False
  then show ?thesis
    by (cases a; cases b) simp_all
qed

lemma is_f32_fsub: "is_f32 (fsub a b)"
  by (simp add: fsub_def is_f32_fadd)

lemma is_f32_fmul: "is_f32 (fmul a b)"
  by (cases a; cases b) (simp_all add: is_f32_round)

lemma is_f32_fdiv: "is_f32 (fdiv a b)"
  by (cases a; cases b) (simp_all add: is_f32_round representable_def)

lemma representable_one: "representable (2 ^ 149)"
  by (simp add: representable_def)

lemma rnd_one: "0 < q \<Longrightarrow> rnd (2 ^ 149 * q) q = 2 ^ 149"
  using representable_one by (intro rnd_exact) (simp add: representable_def)

lemma finite_cases:
  assumes "is_finite a"
  obtains s m where "a = Finite s m"
  using assms by (cases a) simp_all

lemma fkey_nonneg_cases:
  assumes "0 \<le> fkey (Finite s m)"
  shows "\<not> s \<or> m = 0"
  using assms by (simp add: sval_def split: if_splits)

lemma fdiv_unit_interval:
  assumes X: "is_finite X" and Y: "is_finite Y"
    and X0: "0 \<le> fkey X" and XY: "fkey X \<le> fkey Y" and Y0: "0 < fkey Y"
  shows "is_finite (fdiv X Y) \<and> 0 \<le> fkey (fdiv X Y) \<and> fkey (fdiv X Y) \<le> 2 ^ 149"
proof -
  from X obtain s m where x: "X = Finite s m" by (rule finite_cases)
  from Y obtain t n where y: "Y = Finite t n" by (rule finite_cases)
  from Y0 have t: "\<not> t" and n: "0 < n"
    by (simp_all add: y sval_def split: if_splits)
  from X0 have sm: "\<not> s \<or> m = 0"
    unfolding x by (rule fkey_nonneg_cases)
  from XY sm t have mn: "m \<le> n"
    by (auto simp add: x y sval_def)
  have "rnd (m * 2 ^ 149) n \<le> rnd (2 ^ 149 * n) n"
    using n mn by (intro rnd_mono) (simp_all add: mult.commute)
  also have "\<dots> = 2 ^ 149"
    using n by (rule rnd_one)
  finally have le: "rnd (m * 2 ^ 149) n \<le> 2 ^ 149" .
  then have "rnd (m * 2 ^ 149) n < 2 ^ 277"
    by (rule le_less_trans) simp
  then have d: "fdiv X Y = Finite (s \<noteq> t) (rnd (m * 2 ^ 149) n)"
    using n by (simp add: x y f32_round_def Let_def)
  from sm have "s \<longrightarrow> rnd (m * 2 ^ 149) n = 0"
    by (auto simp add: rnd_zero)
  with le t show ?thesis
    by (auto simp add: d sval_def)
qed

lemma fmul_below:
  assumes D: "is_finite D" and Dv: "is_f32 D" and D0: "0 \<le> fkey D"
    and T: "is_finite t" and T0: "0 \<le> fkey t" and T1: "fkey t \<le> 2 ^ 149"
  shows "is_finite (fmul D t) \<and> 0 \<le> fkey (fmul D t) \<and> fkey (fmul D t) \<le> fkey D"
proof -
  from D obtain s m where d: "D = Finite s m" by (rule finite_cases)
  from T obtain u n where t: "t = Finite u n" by (rule finite_cases)
  from Dv have rep: "representable m" by (simp add: d)
  from D0 have sm: "\<not> s \<or> m = 0"
    unfolding d by (rule fkey_nonneg_cases)
  from T0 have un: "\<not> u \<or> n = 0"
    unfolding t by (rule fkey_nonneg_cases)
  from T1 un have n: "n \<le> 2 ^ 149"
    by (auto simp add: t sval_def)
  have "rnd (m * n) (2 ^ 149) \<le> rnd (m * 2 ^ 149) (2 ^ 149)"
    using n by (intro rnd_mono) simp_all
  also have "\<dots> = m"
    using rep by (intro rnd_exact) (simp_all add: representable_def)
  finally have le: "rnd (m * n) (2 ^ 149) \<le> m" .
  with rep have "rnd (m * n) (2 ^ 149) < 2 ^ 277"
    by (simp add: representable_def)
  then have p: "fmul D t = Finite (s \<noteq> u) (rnd (m * n) (2 ^ 149))"
    by (simp add: d t f32_round_def Let_def)
  from sm un have "(s \<noteq> u) \<longrightarrow> rnd (m * n) (2 ^ 149) = 0 \<or> (\<not> s \<and> u \<and> n = 0) \<or> (s \<and> m = 0)"
    by auto
  then have z: "(s \<noteq> u) \<longrightarrow> rnd (m * n) (2 ^ 149) = 0"
    by (auto simp add: rnd_zero)
  show ?thesis
    unfolding p using sm le z by (auto simp add: d sval_def)
qed

lemma fmul_one:
  assumes "is_f32 D"
  shows "fmul D (Finite False (2 ^ 149)) = D"
proof (cases D)
  case (Finite s m)
  with assms have rep: "representable m" by simp
  then have "rnd (m * 2 ^ 149) (2 ^ 149) = m"
    by (intro rnd_exact) (simp_all add: representable_def)
  with rep show ?thesis
    by (simp add: Finite f32_round_def Let_def representable_def)
qed simp_all

lemma fle_finite: "is_finite a \<Longrightarrow> is_finite b \<Longrightarrow> fle a b = (fkey a \<le> fkey b)"
  by (cases a; cases b) (simp_all add: fle_def)

lemma flt_finite: "is_finite a \<Longrightarrow> is_finite b \<Longrightarrow> flt a b = (fkey a < fkey b)"
  by (cases a; cases b) (simp_all add: flt_def)

lemma fkey_finite_bound: "is_finite a \<Longrightarrow> is_f32 a \<Longrightarrow> \<bar>fkey a\<bar> < 2 ^ 277"
  by (cases a) (simp_all add: representable_def sval_def)

lemma scale_core:
  assumes lo: "is_finite lo" "is_f32 lo" and hi: "is_finite hi"
    and le: "fkey lo \<le> fkey hi" and D: "is_finite (fsub hi lo)"
    and t: "is_finite t" "0 \<le> fkey t" "fkey t \<le> 2 ^ 149"
  shows "fle lo (fadd (fmul (fsub hi lo) t) lo)
       \<and> fle (fadd (fmul (fsub hi lo) t) lo) (fadd (fsub hi lo) lo)"
proof -
  from lo(1) obtain s m where l: "lo = Finite s m" by (rule finite_cases)
  from lo(2) have rep: "representable m" by (simp add: l)
  have kD: "fkey (fsub hi lo) = round_key (fkey hi - fkey lo)"
    using fkey_fsub [OF hi lo(1)] by simp
  from le have D0: "0 \<le> fkey (fsub hi lo)"
    unfolding kD by (intro round_key_nonneg) simp
  from fmul_below [OF D is_f32_fsub D0 t]
  have P: "is_finite (fmul (fsub hi lo) t)" "0 \<le> fkey (fmul (fsub hi lo) t)"
    "fkey (fmul (fsub hi lo) t) \<le> fkey (fsub hi lo)"
    by simp_all
  from fkey_fadd [OF P(1) lo(1)]
  have r: "fadd (fmul (fsub hi lo) t) lo \<noteq> NaN"
    "fkey (fadd (fmul (fsub hi lo) t) lo) = round_key (fkey (fmul (fsub hi lo) t) + fkey lo)"
    by simp_all
  from fkey_fadd [OF D lo(1)]
  have u: "fadd (fsub hi lo) lo \<noteq> NaN"
    "fkey (fadd (fsub hi lo) lo) = round_key (fkey (fsub hi lo) + fkey lo)"
    by simp_all
  have "round_key (fkey lo) \<le> round_key (fkey (fmul (fsub hi lo) t) + fkey lo)"
    using P(2) by (intro round_key_mono) simp
  moreover have "round_key (fkey lo) = fkey lo"
    using round_key_exact [OF rep, of s] by (simp add: l)
  moreover have "round_key (fkey (fmul (fsub hi lo) t) + fkey lo)
      \<le> round_key (fkey (fsub hi lo) + fkey lo)"
    using P(3) by (intro round_key_mono) simp
  ultimately show ?thesis
    using r u by (simp add: fle_def l)
qed

section \<open>The scaler\<close>

lemmas scale_eval = scale_def out_lo_def out_hi_def feq_def

lemma round_key_1: "round_key 1 = 1"
  by (simp add: round_key_def f32_eval)

lemma round_key_one: "round_key (2 ^ 149) = 2 ^ 149"
  using round_key_exact [OF representable_one, of False] by (simp add: sval_def)

lemma is_finite_by_key:
  assumes "a \<noteq> NaN" and "\<bar>fkey a\<bar> < 2 ^ 277"
  shows "is_finite a"
  using assms by (cases a) (simp_all split: if_splits)

lemma fle_not: "is_finite a \<Longrightarrow> is_finite b \<Longrightarrow> (\<not> fle a b) = (fkey b < fkey a)"
  by (auto simp add: fle_finite)

lemma fgt_finite: "is_finite a \<Longrightarrow> is_finite b \<Longrightarrow> fgt a b = (fkey b < fkey a)"
  by (simp add: fgt_def flt_finite)

lemma scale_normalised:
  assumes fin: "is_finite val" "is_finite inMin" "is_finite inMax"
    and ok: "flt inMin inMax \<longrightarrow> is_finite (fsub inMax inMin)"
  defines "v1 \<equiv> (if fgt val inMax then inMax else val)"
  defines "v2 \<equiv> (if flt v1 inMin then inMin else v1)"
  defines "t \<equiv> (if fle inMax inMin then f32_lit 0 1
                 else fdiv (fsub v2 inMin) (fsub inMax inMin))"
  shows "is_finite t \<and> 0 \<le> fkey t \<and> fkey t \<le> 2 ^ 149"
proof (cases "fle inMax inMin")
  case True
  then show ?thesis
    by (simp add: t_def f32_lit_0 sval_def)
next
  case False
  with fin have lt: "fkey inMin < fkey inMax"
    by (simp add: fle_not)
  with fin have Y: "is_finite (fsub inMax inMin)"
    using ok by (simp add: flt_finite)
  have v1: "is_finite v1" "fkey v1 \<le> fkey inMax"
    using fin by (auto simp add: v1_def fgt_finite)
  then have v2: "is_finite v2" "fkey inMin \<le> fkey v2" "fkey v2 \<le> fkey inMax"
    using fin lt by (auto simp add: v2_def flt_finite)
  have kX: "fsub v2 inMin \<noteq> NaN" "fkey (fsub v2 inMin) = round_key (fkey v2 - fkey inMin)"
    using fkey_fsub [OF v2(1) fin(2)] by simp_all
  have kY: "fkey (fsub inMax inMin) = round_key (fkey inMax - fkey inMin)"
    using fkey_fsub [OF fin(3) fin(2)] by simp
  have X0: "0 \<le> fkey (fsub v2 inMin)"
    unfolding kX(2) using v2(2) by (intro round_key_nonneg) simp
  have XY: "fkey (fsub v2 inMin) \<le> fkey (fsub inMax inMin)"
    unfolding kX(2) kY using v2(3) by (intro round_key_mono) simp
  have "round_key 1 \<le> round_key (fkey inMax - fkey inMin)"
    using lt by (intro round_key_mono) simp
  then have Y0: "0 < fkey (fsub inMax inMin)"
    by (simp add: kY round_key_1)
  have "\<bar>fkey (fsub inMax inMin)\<bar> < 2 ^ 277"
    using Y is_f32_fsub by (rule fkey_finite_bound)
  with X0 XY have "\<bar>fkey (fsub v2 inMin)\<bar> < 2 ^ 277"
    by simp
  with kX(1) have X: "is_finite (fsub v2 inMin)"
    by (rule is_finite_by_key)
  from fdiv_unit_interval [OF X Y X0 XY Y0] False show ?thesis
    by (simp add: t_def)
qed

lemma one_minus_unit:
  assumes "is_finite t" and "0 \<le> fkey t" and "fkey t \<le> 2 ^ 149"
  shows "is_finite (fsub (f32_lit 1 1) t) \<and> 0 \<le> fkey (fsub (f32_lit 1 1) t)
       \<and> fkey (fsub (f32_lit 1 1) t) \<le> 2 ^ 149"
  unfolding f32_lit_1
proof -
  have one: "is_finite (Finite False (2 ^ 149))"
    by simp
  have e: "fkey (Finite False (2 ^ 149)) = 2 ^ 149"
    by (simp add: sval_def)
  have k: "fsub (Finite False (2 ^ 149)) t \<noteq> NaN"
    "fkey (fsub (Finite False (2 ^ 149)) t) = round_key (2 ^ 149 - fkey t)"
    using fkey_fsub [OF one assms(1)] unfolding e by blast+
  have lo: "0 \<le> round_key (2 ^ 149 - fkey t)"
    using assms(3) by (intro round_key_nonneg) simp
  have "round_key (2 ^ 149 - fkey t) \<le> round_key (2 ^ 149)"
    using assms(2) by (intro round_key_mono) simp
  then have hi: "round_key (2 ^ 149 - fkey t) \<le> 2 ^ 149"
    by (simp only: round_key_one)
  from lo hi have "\<bar>fkey (fsub (Finite False (2 ^ 149)) t)\<bar> < 2 ^ 277"
    unfolding k(2) by simp
  with k(1) have "is_finite (fsub (Finite False (2 ^ 149)) t)"
    by (rule is_finite_by_key)
  with lo hi show "is_finite (fsub (Finite False (2 ^ 149)) t)
       \<and> 0 \<le> fkey (fsub (Finite False (2 ^ 149)) t)
       \<and> fkey (fsub (Finite False (2 ^ 149)) t) \<le> 2 ^ 149"
    by (simp only: k(2))
qed

lemma scale_unfold:
  "scale val inMin inMax outMin outMax =
     (let v1 = (if fgt val inMax then inMax else val);
          v2 = (if flt v1 inMin then inMin else v1);
          t = (if fle inMax inMin then f32_lit 0 1
               else fdiv (fsub v2 inMin) (fsub inMax inMin))
      in if fgt outMin outMax
         then fadd (fmul (fsub outMin outMax) (fsub (f32_lit 1 1) t)) outMax
         else fadd (fmul (fsub outMax outMin) t) outMin)"
  by (simp add: scale_def Let_def)

text \<open>
  C3.  For finite arguments, when neither the input range (if \<open>inMin < inMax\<close>) nor the
  output range overflows in the subtraction, the result of \<open>scale\<close> is at least the
  smaller output bound and at most \<open>(hi - lo) + lo\<close> evaluated in \<open>float\<close>, the value
  that \<open>scale\<close> returns at the upper end; it is at most the larger output bound
  whenever that value is.
\<close>

theorem scale_within_rounded_range:
  assumes fin: "is_finite val" "is_finite inMin" "is_finite inMax"
    and out: "is_finite outMin" "is_finite outMax" "is_f32 outMin" "is_f32 outMax"
    and in_ok: "flt inMin inMax \<longrightarrow> is_finite (fsub inMax inMin)"
    and out_ok: "is_finite (fsub (out_hi outMin outMax) (out_lo outMin outMax))"
  shows "fle (out_lo outMin outMax) (scale val inMin inMax outMin outMax)
    \<and> fle (scale val inMin inMax outMin outMax)
         (fadd (fsub (out_hi outMin outMax) (out_lo outMin outMax)) (out_lo outMin outMax))
    \<and> (fle (fadd (fsub (out_hi outMin outMax) (out_lo outMin outMax)) (out_lo outMin outMax))
            (out_hi outMin outMax)
         \<longrightarrow> fle (scale val inMin inMax outMin outMax) (out_hi outMin outMax))"
proof -
  define v1 where "v1 = (if fgt val inMax then inMax else val)"
  define v2 where "v2 = (if flt v1 inMin then inMin else v1)"
  define t where "t = (if fle inMax inMin then f32_lit 0 1
                       else fdiv (fsub v2 inMin) (fsub inMax inMin))"
  have "is_finite t \<and> 0 \<le> fkey t \<and> fkey t \<le> 2 ^ 149"
    unfolding t_def v2_def v1_def by (rule scale_normalised [OF fin in_ok])
  then have t: "is_finite t" "0 \<le> fkey t" "fkey t \<le> 2 ^ 149"
    by blast+
  have bounds: "fle (out_lo outMin outMax) (scale val inMin inMax outMin outMax)
    \<and> fle (scale val inMin inMax outMin outMax)
         (fadd (fsub (out_hi outMin outMax) (out_lo outMin outMax)) (out_lo outMin outMax))"
  proof (cases "fgt outMin outMax")
    case True
    then have lohi: "out_lo outMin outMax = outMax" "out_hi outMin outMax = outMin"
      by (simp_all add: out_lo_def out_hi_def)
    from True out have le: "fkey outMax \<le> fkey outMin"
      by (simp add: fgt_finite)
    have s: "scale val inMin inMax outMin outMax
        = fadd (fmul (fsub outMin outMax) (fsub (f32_lit 1 1) t)) outMax"
      using True by (simp add: scale_unfold Let_def t_def v2_def v1_def)
    from one_minus_unit [OF t]
    have t': "is_finite (fsub (f32_lit 1 1) t)" "0 \<le> fkey (fsub (f32_lit 1 1) t)"
      "fkey (fsub (f32_lit 1 1) t) \<le> 2 ^ 149"
      by simp_all
    from scale_core [OF out(2) out(4) out(1) le out_ok [unfolded lohi] t']
    show ?thesis
      by (simp only: s lohi)
  next
    case False
    then have lohi: "out_lo outMin outMax = outMin" "out_hi outMin outMax = outMax"
      by (simp_all add: out_lo_def out_hi_def)
    from False out have le: "fkey outMin \<le> fkey outMax"
      by (simp add: fgt_finite)
    have s: "scale val inMin inMax outMin outMax = fadd (fmul (fsub outMax outMin) t) outMin"
      using False by (simp add: scale_unfold Let_def t_def v2_def v1_def)
    from scale_core [OF out(1) out(3) out(2) le out_ok [unfolded lohi] t]
    show ?thesis
      by (simp only: s lohi)
  qed
  moreover have "fle x z" if "fle x y" and "fle y z" for x y z
    using that by (auto simp add: fle_def)
  ultimately show ?thesis by blast
qed

theorem scale_within_rounded_range_witness:
  "is_finite (f32_lit 1 2) \<and> is_finite (f32_lit 0 1) \<and> is_finite (f32_lit 1 1)
   \<and> is_finite (f32_lit 1 1000) \<and> is_finite (f32_lit 10 1000)
   \<and> is_f32 (f32_lit 1 1000) \<and> is_f32 (f32_lit 10 1000)
   \<and> is_finite (fsub (f32_lit 1 1) (f32_lit 0 1))
   \<and> is_finite (fsub (out_hi (f32_lit 1 1000) (f32_lit 10 1000))
                    (out_lo (f32_lit 1 1000) (f32_lit 10 1000)))
   \<and> fle (out_lo (f32_lit 1 1000) (f32_lit 10 1000))
         (scale (f32_lit 1 2) (f32_lit 0 1) (f32_lit 1 1) (f32_lit 1 1000) (f32_lit 10 1000))
   \<and> fle (scale (f32_lit 1 2) (f32_lit 0 1) (f32_lit 1 1) (f32_lit 1 1000) (f32_lit 10 1000))
         (out_hi (f32_lit 1 1000) (f32_lit 10 1000))"
proof -
  have h1: "is_finite (f32_lit 1 2)" by (simp add: f32_eval)
  have h2: "is_finite (f32_lit 0 1)" by (simp add: f32_eval)
  have h3: "is_finite (f32_lit 1 1)" by (simp add: f32_eval)
  have h4: "is_finite (f32_lit 1 1000)" by (simp add: f32_eval)
  have h5: "is_finite (f32_lit 10 1000)" by (simp add: f32_eval)
  have h6: "is_f32 (f32_lit 1 1000)" by (simp add: f32_eval)
  have h7: "is_f32 (f32_lit 10 1000)" by (simp add: f32_eval)
  have h8: "is_finite (fsub (f32_lit 1 1) (f32_lit 0 1))" by (simp add: f32_eval)
  then have h8': "flt (f32_lit 0 1) (f32_lit 1 1) \<longrightarrow> is_finite (fsub (f32_lit 1 1) (f32_lit 0 1))"
    by blast
  have h9: "is_finite (fsub (out_hi (f32_lit 1 1000) (f32_lit 10 1000))
                    (out_lo (f32_lit 1 1000) (f32_lit 10 1000)))"
    by (simp add: scale_eval f32_eval)
  have h10: "fle (fadd (fsub (out_hi (f32_lit 1 1000) (f32_lit 10 1000))
                    (out_lo (f32_lit 1 1000) (f32_lit 10 1000)))
                (out_lo (f32_lit 1 1000) (f32_lit 10 1000)))
              (out_hi (f32_lit 1 1000) (f32_lit 10 1000))"
    by (simp add: scale_eval f32_eval)
  from scale_within_rounded_range [OF h1 h2 h3 h4 h5 h6 h7 h8' h9] h10
    h1 h2 h3 h4 h5 h6 h7 h8 h9
  show ?thesis by blast
qed

text \<open>
  The bound of C3 without the rounding fails: from the input range \<open>[0, 1]\<close> to the
  output range \<open>[0.0055f, 0.1f]\<close>, the input 1 gives the value one spacing above
  \<open>0.1f\<close>.
\<close>

theorem scale_exceeds_range_counterexample:
  "is_finite (f32_lit 1 1) \<and> is_finite (f32_lit 0 1)
   \<and> is_finite (f32_lit 55 10000) \<and> is_finite (f32_lit 1 10)
   \<and> flt (f32_lit 0 1) (f32_lit 1 1)
   \<and> flt (f32_lit 55 10000) (f32_lit 1 10)
   \<and> f32_lit 1 10 = Finite False 71362385698680390680846996795520405043412992
   \<and> scale (f32_lit 1 1) (f32_lit 0 1) (f32_lit 1 1) (f32_lit 55 10000) (f32_lit 1 10)
       = Finite False 71362391015592373820510488410748646164791296
   \<and> \<not> fle (scale (f32_lit 1 1) (f32_lit 0 1) (f32_lit 1 1) (f32_lit 55 10000) (f32_lit 1 10))
           (f32_lit 1 10)"
  by (simp add: scale_eval f32_eval)

text \<open>
  C9.  For a finite \<open>x\<close> and finite \<open>a\<close>, \<open>b\<close>: when \<open>a \<le> b\<close> and \<open>b - a\<close> does not
  overflow, \<open>scale(v, x, x, a, b)\<close> compares equal to \<open>a\<close> and is \<open>a\<close> itself, but for
  \<open>+0\<close> in place of \<open>-0\<close>; when \<open>a > b\<close> it is \<open>(a - b) + b\<close> evaluated in
  \<open>float\<close>.
\<close>

theorem scale_degenerate_input:
  assumes x: "is_finite x" and a: "is_finite a" "is_f32 a" and b: "is_finite b"
  shows "(fle a b \<and> is_finite (fsub b a)
           \<longrightarrow> feq (scale v x x a b) a
             \<and> scale v x x a b = (if a = Finite True 0 then Finite False 0 else a))
       \<and> (fgt a b \<longrightarrow> scale v x x a b = fadd (fsub a b) b)"
proof -
  from x have xx: "fle x x"
    by (simp add: fle_finite)
  have rev: "scale v x x a b = fadd (fsub a b) b" if "fgt a b"
  proof -
    have one: "fsub (Finite False (2 ^ 149)) (Finite False 0) = Finite False (2 ^ 149)"
      by (simp add: f32_eval)
    from that xx one
    have "scale v x x a b = fadd (fmul (fsub a b) (Finite False (2 ^ 149))) b"
      unfolding scale_unfold Let_def f32_lit_0 f32_lit_1 by simp
    then show ?thesis
      by (simp only: fmul_one [OF is_f32_fsub])
  qed
  have fwd: "feq (scale v x x a b) a
      \<and> scale v x x a b = (if a = Finite True 0 then Finite False 0 else a)"
    if le: "fle a b" and D: "is_finite (fsub b a)"
  proof -
    from le a b have "\<not> fgt a b"
      by (simp add: fgt_finite fle_finite)
    with xx have s: "scale v x x a b = fadd (fmul (fsub b a) (Finite False 0)) a"
      by (simp add: scale_unfold Let_def f32_lit_0)
    from D obtain sD mD where d: "fsub b a = Finite sD mD" by (rule finite_cases)
    from a(1) obtain sa ma where fa: "a = Finite sa ma" by (rule finite_cases)
    from b obtain sb mb where fb: "b = Finite sb mb" by (rule finite_cases)
    have p: "fmul (fsub b a) (Finite False 0) = Finite sD 0"
      by (simp add: d f32_round_def Let_def rnd_zero)
    have r: "scale v x x a b = fadd (Finite sD 0) a"
      by (simp only: s p)
    show ?thesis
    proof (cases "ma = 0")
      case False
      from a(2) have rep: "representable ma" by (simp add: fa)
      then have "rnd ma 1 = ma" and "ma < 2 ^ 277"
        by (simp_all add: rnd_exact_1 representable_def del: One_nat_def)
      with False have "fadd (Finite sD 0) (Finite sa ma) = Finite sa ma"
        by (cases sa) (simp_all add: sval_def f32_round_def Let_def del: One_nat_def)
      then have "fadd (Finite sD 0) a = a"
        by (simp only: fa)
      then have "scale v x x a b = a"
        by (rule trans [OF r])
      with False show ?thesis
        by (simp add: feq_def fa)
    next
      case True
      have "\<not> sD" if "sa"
      proof -
        from le have "0 \<le> sval sb mb"
          using that True by (simp add: fa fb fle_def sval_def)
        then have "\<not> sb \<or> mb = 0"
          by (simp add: sval_def split: if_splits)
        with d that True show ?thesis
          by (auto simp add: fa fb fsub_def sval_def f32_round_def Let_def split: if_splits)
      qed
      with True have "fadd (Finite sD 0) (Finite sa ma) = Finite False 0"
        by (cases sa) (simp_all add: sval_def)
      then have "fadd (Finite sD 0) a = Finite False 0"
        by (simp only: fa)
      then have "scale v x x a b = Finite False 0"
        by (rule trans [OF r])
      with True show ?thesis
        by (cases sa) (simp_all add: feq_def fa sval_def)
    qed
  qed
  from rev fwd show ?thesis by blast
qed

theorem scale_degenerate_input_witness:
  "is_finite (f32_lit 1 2) \<and> is_finite (f32_lit 1 1000) \<and> is_f32 (f32_lit 1 1000)
   \<and> is_finite (f32_lit 10 1000)
   \<and> fle (f32_lit 1 1000) (f32_lit 10 1000)
   \<and> is_finite (fsub (f32_lit 10 1000) (f32_lit 1 1000))
   \<and> scale (f32_lit 3 1) (f32_lit 1 2) (f32_lit 1 2) (f32_lit 1 1000) (f32_lit 10 1000)
       = f32_lit 1 1000
   \<and> is_finite (f32_lit 5 100) \<and> is_f32 (f32_lit 5 100) \<and> is_finite (f32_lit 1 100)
   \<and> fgt (f32_lit 5 100) (f32_lit 1 100)
   \<and> scale (f32_lit 3 1) (f32_lit 1 2) (f32_lit 1 2) (f32_lit 5 100) (f32_lit 1 100)
       = fadd (fsub (f32_lit 5 100) (f32_lit 1 100)) (f32_lit 1 100)"
proof -
  have x: "is_finite (f32_lit 1 2)" by (simp add: f32_eval)
  have a: "is_finite (f32_lit 1 1000)" "is_f32 (f32_lit 1 1000)" by (simp_all add: f32_eval)
  have b: "is_finite (f32_lit 10 1000)" by (simp add: f32_eval)
  have le: "fle (f32_lit 1 1000) (f32_lit 10 1000)" by (simp add: f32_eval)
  have d: "is_finite (fsub (f32_lit 10 1000) (f32_lit 1 1000))" by (simp add: f32_eval)
  have nz: "f32_lit 1 1000 \<noteq> Finite True 0" by (simp add: f32_eval)
  have a': "is_finite (f32_lit 5 100)" "is_f32 (f32_lit 5 100)" by (simp_all add: f32_eval)
  have b': "is_finite (f32_lit 1 100)" by (simp add: f32_eval)
  have gt: "fgt (f32_lit 5 100) (f32_lit 1 100)" by (simp add: f32_eval)
  from scale_degenerate_input [OF x a b, of "f32_lit 3 1"] le d nz
  have 1: "scale (f32_lit 3 1) (f32_lit 1 2) (f32_lit 1 2) (f32_lit 1 1000) (f32_lit 10 1000)
       = f32_lit 1 1000"
    by presburger
  from scale_degenerate_input [OF x a' b', of "f32_lit 3 1"] gt
  have 2: "scale (f32_lit 3 1) (f32_lit 1 2) (f32_lit 1 2) (f32_lit 5 100) (f32_lit 1 100)
       = fadd (fsub (f32_lit 5 100) (f32_lit 1 100)) (f32_lit 1 100)"
    by blast
  from x a b le d a' b' gt 1 2 show ?thesis by blast
qed

text \<open>
  The equation of C9 fails when \<open>a > b\<close>: for \<open>a = 0.05f\<close> and \<open>b = 0.01f\<close> the result is
  below \<open>a\<close>.
\<close>

theorem scale_degenerate_reversed_counterexample:
  "f32_lit 5 100 = Finite False 35681192849340195340423498397760202521706496
   \<and> scale (f32_lit 0 1) (f32_lit 0 1) (f32_lit 0 1) (f32_lit 5 100) (f32_lit 1 100)
       = Finite False 35681190190884203770591752590146081961017344
   \<and> scale (f32_lit 0 1) (f32_lit 0 1) (f32_lit 0 1) (f32_lit 5 100) (f32_lit 1 100)
       \<noteq> f32_lit 5 100
   \<and> \<not> feq (scale (f32_lit 0 1) (f32_lit 0 1) (f32_lit 0 1) (f32_lit 5 100) (f32_lit 1 100))
           (f32_lit 5 100)"
  by (simp add: scale_eval f32_eval)

section \<open>The comparator\<close>

lemma update_eq: "update d v = (if differs d v then (v, 1) else (d, 0))"
  by (simp add: update_def differs_def)

lemma not_differs_self: "\<not> differs v v"
  unfolding differs_def f32_lit_eps
  by (cases v) (simp_all add: fsub_def fgt_def flt_def sval_def)

text \<open>
  C4.  For every content \<open>dest\<close> of the destination and every new value, \<open>update\<close> returns 1
  exactly when \<open>fabsf(dest - newValue) > 1e-9f\<close> holds in \<open>float\<close> arithmetic, and then the
  destination holds the new value; otherwise it returns 0 and the destination keeps its
  content.
\<close>

theorem update_assigns_iff_differs:
  "(snd (update dest newValue) = 1
      \<longleftrightarrow> fgt (fabsf (fsub dest newValue)) (f32_lit 1 (10 ^ 9)))
   \<and> (snd (update dest newValue) = 1 \<longrightarrow> fst (update dest newValue) = newValue)
   \<and> (snd (update dest newValue) \<noteq> 1
        \<longrightarrow> snd (update dest newValue) = 0 \<and> fst (update dest newValue) = dest)"
  by (simp add: update_def)

theorem update_assigns_iff_differs_witness:
  "update (f32_lit 0 1) (f32_lit 1 1) = (f32_lit 1 1, 1)
   \<and> fgt (fabsf (fsub (f32_lit 0 1) (f32_lit 1 1))) (f32_lit 1 (10 ^ 9))
   \<and> update (f32_lit 1 1) (f32_lit 1 1) = (f32_lit 1 1, 0)
   \<and> \<not> fgt (fabsf (fsub (f32_lit 1 1) (f32_lit 1 1))) (f32_lit 1 (10 ^ 9))"
proof -
  have a: "fgt (fabsf (fsub (f32_lit 0 1) (f32_lit 1 1))) (f32_lit 1 (10 ^ 9))"
    unfolding f32_lit_eps f32_lit_0 f32_lit_1 by (simp add: f32_eval)
  have b: "\<not> fgt (fabsf (fsub (f32_lit 1 1) (f32_lit 1 1))) (f32_lit 1 (10 ^ 9))"
    unfolding f32_lit_eps f32_lit_0 f32_lit_1 by (simp add: f32_eval)
  from a update_assigns_iff_differs [of "f32_lit 0 1" "f32_lit 1 1"]
  have "update (f32_lit 0 1) (f32_lit 1 1) = (f32_lit 1 1, 1)"
    by (metis prod.collapse)
  moreover from b update_assigns_iff_differs [of "f32_lit 1 1" "f32_lit 1 1"]
  have "update (f32_lit 1 1) (f32_lit 1 1) = (f32_lit 1 1, 0)"
    by (metis prod.collapse)
  ultimately show ?thesis using a b by blast
qed

text \<open>
  In exact arithmetic the test of \<open>update\<close> on finite values is a threshold on the
  distance: with \<open>1e-9f\<close> being 713623826170319227308231475922468864 units of \<open>2^-149\<close>,
  the difference rounds above it exactly from half a spacing (\<open>2^95\<close> units) above.
\<close>

lemma rnd_eps_threshold:
  "713623826170319227308231475922468864 < rnd n 1
     \<longleftrightarrow> 713623826170319227308231475922468864 + 2 ^ 95 \<le> n"
proof
  assume "713623826170319227308231475922468864 + 2 ^ 95 \<le> n"
  then have "rnd (713623826170319227308231475922468864 + 2 ^ 95) 1 \<le> rnd n 1"
    by (rule rnd_mono_1)
  moreover have "713623826170319227308231475922468864
      < rnd (713623826170319227308231475922468864 + 2 ^ 95) 1"
    by (simp add: f32_eval)
  ultimately show "713623826170319227308231475922468864 < rnd n 1"
    by (rule less_le_trans [rotated])
next
  assume a: "713623826170319227308231475922468864 < rnd n 1"
  show "713623826170319227308231475922468864 + 2 ^ 95 \<le> n"
  proof (rule ccontr)
    assume "\<not> 713623826170319227308231475922468864 + 2 ^ 95 \<le> n"
    then have "n \<le> 713623826170319227308231475922468864 + 2 ^ 95 - 1"
      by simp
    then have "rnd n 1 \<le> rnd (713623826170319227308231475922468864 + 2 ^ 95 - 1) 1"
      by (rule rnd_mono_1)
    moreover have "rnd (713623826170319227308231475922468864 + 2 ^ 95 - 1) 1
        = 713623826170319227308231475922468864"
      by (simp add: f32_eval)
    ultimately show False using a by simp
  qed
qed

lemma fkey_fabsf: "a \<noteq> NaN \<Longrightarrow> fabsf a \<noteq> NaN \<and> fkey (fabsf a) = \<bar>fkey a\<bar>"
  by (cases a) (simp_all add: sval_def)

lemma abs_round_key: "\<bar>round_key z\<bar> = int (min (rnd (nat \<bar>z\<bar>) 1) (2 ^ 277))"
  by (simp add: round_key_def rnd_zero)

lemma differs_exact:
  assumes "is_finite d" and "is_finite v"
  shows "differs d v \<longleftrightarrow> 713623826170319227308231475922468864 + 2 ^ 95 \<le> \<bar>fkey d - fkey v\<bar>"
proof -
  from fkey_fsub [OF assms]
  have x: "fsub d v \<noteq> NaN" "fkey (fsub d v) = round_key (fkey d - fkey v)"
    by simp_all
  from fkey_fabsf [OF x(1)]
  have y: "fabsf (fsub d v) \<noteq> NaN"
    "fkey (fabsf (fsub d v)) = int (min (rnd (nat \<bar>fkey d - fkey v\<bar>) 1) (2 ^ 277))"
    by (simp_all add: x(2) abs_round_key)
  have "differs d v \<longleftrightarrow>
      713623826170319227308231475922468864 < min (rnd (nat \<bar>fkey d - fkey v\<bar>) 1) (2 ^ 277)"
    unfolding differs_def f32_lit_eps fgt_def flt_def using y by (simp add: sval_def)
  also have "\<dots> \<longleftrightarrow> 713623826170319227308231475922468864 < rnd (nat \<bar>fkey d - fkey v\<bar>) 1"
    by simp
  also have "\<dots> \<longleftrightarrow> 713623826170319227308231475922468864 + 2 ^ 95 \<le> nat \<bar>fkey d - fkey v\<bar>"
    by (rule rnd_eps_threshold)
  also have "\<dots> \<longleftrightarrow> 713623826170319227308231475922468864 + 2 ^ 95 \<le> \<bar>fkey d - fkey v\<bar>"
    by (simp add: le_nat_iff)
  finally show ?thesis .
qed

section \<open>Gating of the tick\<close>

text \<open>
  C5.  When \<open>UpdateMode\<close> is \<open>WHENARMED\<close> and the flight status is \<open>DISARMED\<close>, a tick
  returns without a single object write, whatever the slots, the inputs, the banks and
  the settings are; the objects after the tick are the objects before it.
\<close>

theorem disarmed_whenarmed_no_writes:
  assumes "UpdateMode (TxPIDSettings U) = UPDATEMODE_WHENARMED K"
    and "FlightStatusArmed U = ARMED_DISARMED K"
  shows "updatePIDs K ev_obj U = Inr [] \<and> after_tick K ev_obj U = U"
  using assms by (simp add: updatePIDs_def after_tick_def Let_def)

theorem disarmed_whenarmed_no_writes_witness:
  "UpdateMode (TxPIDSettings (U_throttle 1 0)) = UPDATEMODE_WHENARMED K0
   \<and> FlightStatusArmed (U_throttle 1 0) = ARMED_DISARMED K0
   \<and> updatePIDs K0 7 (U_throttle 1 0) = Inr []
   \<and> after_tick K0 7 (U_throttle 1 0) = U_throttle 1 0"
proof -
  have a: "UpdateMode (TxPIDSettings (U_throttle 1 0)) = UPDATEMODE_WHENARMED K0"
    by (simp add: U_throttle_def K0_def)
  have b: "FlightStatusArmed (U_throttle 1 0) = ARMED_DISARMED K0"
    by (simp add: U_throttle_def K0_def)
  show ?thesis
    using a b disarmed_whenarmed_no_writes [OF a b, of 7] by simp
qed

section \<open>Disabled slots\<close>

lemma slot_loop_append:
  "slot_loop U inst (xs @ ys) l =
     (case slot_loop U inst xs l of Inl e \<Rightarrow> Inl e | Inr l' \<Rightarrow> slot_loop U inst ys l')"
  by (induction xs arbitrary: l) (auto split: sum.splits)

lemma slot_body_disabled:
  "PIDs inst ! i = PIDS_DISABLED \<Longrightarrow> slot_body U inst i l = Inr l"
  by (simp add: slot_body_def)

lemma slot_value_with_slot:
  "j \<noteq> i \<Longrightarrow>
   slot_value (with_slot U i inp mn mx) (TxPIDSettings (with_slot U i inp mn mx)) j
     = slot_value U (TxPIDSettings U) j"
  by (simp add: slot_value_def with_slot_def AccessoryDesiredInstGet_def)

lemma slot_body_with_slot:
  assumes "PIDs (TxPIDSettings U) ! i = PIDS_DISABLED"
  shows "slot_body (with_slot U i inp mn mx) (TxPIDSettings (with_slot U i inp mn mx)) j l
     = slot_body U (TxPIDSettings U) j l"
proof (cases "j = i")
  case True
  have "PIDs (TxPIDSettings (with_slot U i inp mn mx)) ! i = PIDS_DISABLED"
    using assms by (simp add: with_slot_def)
  with assms True show ?thesis
    by (simp add: slot_body_disabled)
next
  case False
  have "PIDs (TxPIDSettings (with_slot U i inp mn mx)) = PIDs (TxPIDSettings U)"
    by (simp add: with_slot_def)
  with False show ?thesis
    by (simp add: slot_body_def slot_value_with_slot split: option.splits)
qed

lemma slot_loop_with_slot:
  assumes "PIDs (TxPIDSettings U) ! i = PIDS_DISABLED"
  shows "slot_loop (with_slot U i inp mn mx) (TxPIDSettings (with_slot U i inp mn mx)) js l
     = slot_loop U (TxPIDSettings U) js l"
  by (induction js arbitrary: l) (simp_all add: slot_body_with_slot [OF assms] split: sum.splits)

lemma slot_loop_all_disabled:
  "\<forall>j\<in>set js. PIDs inst ! j = PIDS_DISABLED \<Longrightarrow> slot_loop U inst js l = Inr l"
  by (induction js arbitrary: l) (simp_all add: slot_body_disabled)

lemma updatePIDs_with_slot:
  assumes "PIDs (TxPIDSettings U) ! i = PIDS_DISABLED"
  shows "updatePIDs K ev_obj (with_slot U i inp mn mx) = updatePIDs K ev_obj U"
proof -
  have a: "UpdateMode (TxPIDSettings (with_slot U i inp mn mx)) = UpdateMode (TxPIDSettings U)"
    "FlightStatusArmed (with_slot U i inp mn mx) = FlightStatusArmed U"
    "PIDs (TxPIDSettings (with_slot U i inp mn mx)) = PIDs (TxPIDSettings U)"
    "StabilizationSettings (with_slot U i inp mn mx) = StabilizationSettings U"
    "bank_load (with_slot U i inp mn mx) = bank_load U"
    by (simp_all add: with_slot_def bank_load_def fun_eq_iff)
  show ?thesis
    unfolding updatePIDs_def Let_def a slot_loop_with_slot [OF assms] ..
qed

text \<open>
  C8.  A slot whose target is \<open>DISABLED\<close> leaves the locals of the tick as they are (no
  field of the bank or of the settings and no dirty flag changes), whatever the objects
  hold; the writes of the tick do not depend on the input source, the minimum or the
  maximum configured for that slot; and a tick whose slots are all disabled writes nothing.
\<close>

theorem disabled_slot_contributes_nothing:
  assumes "PIDs (TxPIDSettings U) ! i = PIDS_DISABLED"
  shows "slot_body U (TxPIDSettings U) i l = Inr l
    \<and> updatePIDs K ev_obj (with_slot U i inp mn mx) = updatePIDs K ev_obj U
    \<and> ((\<forall>j < length (PIDs (TxPIDSettings U)). PIDs (TxPIDSettings U) ! j = PIDS_DISABLED)
         \<longrightarrow> updatePIDs K ev_obj U = Inr [])"
proof -
  have "updatePIDs K ev_obj U = Inr []"
    if "\<forall>j < length (PIDs (TxPIDSettings U)). PIDs (TxPIDSettings U) ! j = PIDS_DISABLED"
  proof -
    from that have "\<forall>j\<in>set [0 ..< length (PIDs (TxPIDSettings U))].
        PIDs (TxPIDSettings U) ! j = PIDS_DISABLED"
      by simp
    then have "\<And>l. slot_loop U (TxPIDSettings U) [0 ..< length (PIDs (TxPIDSettings U))] l = Inr l"
      by (rule slot_loop_all_disabled)
    then show ?thesis
      by (simp add: updatePIDs_def Let_def split: option.splits)
  qed
  with assms show ?thesis
    by (simp add: slot_body_disabled updatePIDs_with_slot)
qed

theorem disabled_slot_contributes_nothing_witness:
  "PIDs (TxPIDSettings (U_one 2 PIDS_DISABLED (f32_lit 1 1) (f32_lit 2 1))) ! 0 = PIDS_DISABLED
   \<and> slot_body (U_one 2 PIDS_DISABLED (f32_lit 1 1) (f32_lit 2 1))
        (TxPIDSettings (U_one 2 PIDS_DISABLED (f32_lit 1 1) (f32_lit 2 1))) 0
        (tick_start (U_one 2 PIDS_DISABLED (f32_lit 1 1) (f32_lit 2 1)) zero_bank)
       = Inr (tick_start (U_one 2 PIDS_DISABLED (f32_lit 1 1) (f32_lit 2 1)) zero_bank)
   \<and> updatePIDs K0 7 (with_slot (U_one 2 PIDS_DISABLED (f32_lit 1 1) (f32_lit 2 1)) 0 1
        (f32_lit 3 1) (f32_lit 4 1))
       = updatePIDs K0 7 (U_one 2 PIDS_DISABLED (f32_lit 1 1) (f32_lit 2 1))
   \<and> updatePIDs K0 7 (U_one 2 PIDS_DISABLED (f32_lit 1 1) (f32_lit 2 1)) = Inr []"
proof -
  have a: "PIDs (TxPIDSettings (U_one 2 PIDS_DISABLED (f32_lit 1 1) (f32_lit 2 1))) ! 0
      = PIDS_DISABLED"
    by (simp add: U_one_def)
  have b: "\<forall>j < length (PIDs (TxPIDSettings (U_one 2 PIDS_DISABLED (f32_lit 1 1) (f32_lit 2 1)))).
      PIDs (TxPIDSettings (U_one 2 PIDS_DISABLED (f32_lit 1 1) (f32_lit 2 1))) ! j = PIDS_DISABLED"
    by (simp add: U_one_def)
  show ?thesis
    using a b disabled_slot_contributes_nothing [OF a,
        of "tick_start (U_one 2 PIDS_DISABLED (f32_lit 1 1) (f32_lit 2 1)) zero_bank"
           K0 7 1 "f32_lit 3 1" "f32_lit 4 1"]
    by blast
qed

section \<open>The dispatch and the dirty flags\<close>

lemma bank_get_put:
  "bank_get f (bank_put g v b) = (if f = g then v else bank_get f b)"
  by (cases g; cases f; simp)

lemma bank_put_get_id: "bank_put f (bank_get f b) b = b"
  by (cases f) simp_all

lemma differs_neq: "differs d v \<Longrightarrow> d \<noteq> v"
  using not_differs_self by blast

lemma update_bank_eq:
  "update_bank f v l =
     (if differs (bank_get f (bank l)) v
      then l\<lparr>bank := bank_put f v (bank l), needsUpdateBank := needsUpdateBank l OR 1\<rparr>
      else l)"
  by (simp add: update_bank_def update_eq bank_put_get_id)

lemma update_stab_eq:
  "update_stab v l =
     (if differs (GyroTau (stab l)) v
      then l\<lparr>stab := (stab l)\<lparr>GyroTau := v\<rparr>, needsUpdateStab := needsUpdateStab l OR 1\<rparr>
      else l)"
  by (simp add: update_stab_def update_eq)

lemma or_1_neq_0: "(x OR 1 :: uint8) \<noteq> 0"
  by (simp add: or_eq_0_iff)

lemma update_target_same:
  "\<not> differs (target_get t l) v \<Longrightarrow> update_target t v l = l"
  by (cases t) (simp_all add: update_bank_eq update_stab_eq)

lemma target_get_update_target:
  "target_get t' (update_target t v l)
     = (if t' = t \<and> differs (target_get t l) v then v else target_get t' l)"
  by (cases t; cases t') (simp_all add: update_bank_eq update_stab_eq bank_get_put)

lemma dispatch_targets:
  "dispatch p v l =
     (if targets p = [] then Inl PIOS_Assert_failed
      else Inr (foldl (\<lambda>l t. update_target t v l) l (targets p)))"
  by (cases p) simp_all

lemma bank_changed_step:
  assumes "(needsUpdateBank l = needsUpdateBank l0 \<and> bank l = bank l0)
         \<or> (\<exists>f. bank_get f (bank l) = v \<and> bank_get f (bank l0) \<noteq> v)"
  shows "(needsUpdateBank (update_target t v l) = needsUpdateBank l0
            \<and> bank (update_target t v l) = bank l0)
         \<or> (\<exists>f. bank_get f (bank (update_target t v l)) = v \<and> bank_get f (bank l0) \<noteq> v)"
proof (cases t)
  case Stab_GyroTau
  with assms show ?thesis
    by (simp add: update_stab_eq)
next
  case (Bank_field g)
  show ?thesis
  proof (cases "differs (bank_get g (bank l)) v")
    case False
    with assms Bank_field show ?thesis
      by (simp add: update_bank_eq)
  next
    case True
    from assms show ?thesis
    proof
      assume "needsUpdateBank l = needsUpdateBank l0 \<and> bank l = bank l0"
      with True have "bank_get g (bank l0) \<noteq> v"
        using differs_neq by auto
      then have "bank_get g (bank (update_target t v l)) = v \<and> bank_get g (bank l0) \<noteq> v"
        using True Bank_field by (simp add: update_bank_eq bank_get_put)
      then show ?thesis by blast
    next
      assume "\<exists>f. bank_get f (bank l) = v \<and> bank_get f (bank l0) \<noteq> v"
      then obtain f where "bank_get f (bank l) = v" "bank_get f (bank l0) \<noteq> v"
        by blast
      then have "bank_get f (bank (update_target t v l)) = v \<and> bank_get f (bank l0) \<noteq> v"
        using True Bank_field by (simp add: update_bank_eq bank_get_put)
      then show ?thesis by blast
    qed
  qed
qed

lemma bank_changed_fold:
  assumes "(needsUpdateBank l = needsUpdateBank l0 \<and> bank l = bank l0)
         \<or> (\<exists>f. bank_get f (bank l) = v \<and> bank_get f (bank l0) \<noteq> v)"
  shows "(needsUpdateBank (foldl (\<lambda>l t. update_target t v l) l ts) = needsUpdateBank l0
            \<and> bank (foldl (\<lambda>l t. update_target t v l) l ts) = bank l0)
         \<or> (\<exists>f. bank_get f (bank (foldl (\<lambda>l t. update_target t v l) l ts)) = v
                \<and> bank_get f (bank l0) \<noteq> v)"
  using assms
proof (induction ts arbitrary: l)
  case Nil
  then show ?case by simp
next
  case (Cons t ts)
  from bank_changed_step [OF Cons.prems] show ?case
    by (simp add: Cons.IH)
qed

lemma stab_changed_step:
  assumes "(needsUpdateStab l = needsUpdateStab l0 \<and> stab l = stab l0)
         \<or> (GyroTau (stab l) = v \<and> GyroTau (stab l0) \<noteq> v)"
  shows "(needsUpdateStab (update_target t v l) = needsUpdateStab l0
            \<and> stab (update_target t v l) = stab l0)
         \<or> (GyroTau (stab (update_target t v l)) = v \<and> GyroTau (stab l0) \<noteq> v)"
proof (cases t)
  case (Bank_field g)
  with assms show ?thesis
    by (simp add: update_bank_eq)
next
  case Stab_GyroTau
  show ?thesis
  proof (cases "differs (GyroTau (stab l)) v")
    case False
    with assms Stab_GyroTau show ?thesis
      by (simp add: update_stab_eq)
  next
    case True
    then have "GyroTau (stab l) \<noteq> v"
      using differs_neq by auto
    with assms True Stab_GyroTau show ?thesis
      by (auto simp add: update_stab_eq)
  qed
qed

lemma stab_changed_fold:
  assumes "(needsUpdateStab l = needsUpdateStab l0 \<and> stab l = stab l0)
         \<or> (GyroTau (stab l) = v \<and> GyroTau (stab l0) \<noteq> v)"
  shows "(needsUpdateStab (foldl (\<lambda>l t. update_target t v l) l ts) = needsUpdateStab l0
            \<and> stab (foldl (\<lambda>l t. update_target t v l) l ts) = stab l0)
         \<or> (GyroTau (stab (foldl (\<lambda>l t. update_target t v l) l ts)) = v
                \<and> GyroTau (stab l0) \<noteq> v)"
  using assms
proof (induction ts arbitrary: l)
  case Nil
  then show ?case by simp
next
  case (Cons t ts)
  from stab_changed_step [OF Cons.prems] show ?case
    by (simp add: Cons.IH)
qed

lemma slot_body_cases:
  assumes "slot_body U inst k l = Inr l'"
  shows "l' = l \<or> (\<exists>v. slot_value U inst k = Some v \<and> PIDs inst ! k \<noteq> PIDS_DISABLED
            \<and> targets (PIDs inst ! k) \<noteq> []
            \<and> l' = foldl (\<lambda>l t. update_target t v l) l (targets (PIDs inst ! k)))"
  using assms
  by (auto simp add: slot_body_def dispatch_targets split: if_splits option.splits)

lemma slot_body_bank_flag:
  assumes "slot_body U inst k l = Inr l'" and "needsUpdateBank l' \<noteq> needsUpdateBank l"
  shows "bank l' \<noteq> bank l"
proof -
  from slot_body_cases [OF assms(1)] assms(2)
  obtain v where l': "l' = foldl (\<lambda>l t. update_target t v l) l (targets (PIDs inst ! k))"
    by auto
  have "(needsUpdateBank l' = needsUpdateBank l \<and> bank l' = bank l)
         \<or> (\<exists>f. bank_get f (bank l') = v \<and> bank_get f (bank l) \<noteq> v)"
    unfolding l' by (rule bank_changed_fold) simp
  with assms(2) show ?thesis by auto
qed

lemma slot_body_stab_flag:
  assumes "slot_body U inst k l = Inr l'" and "needsUpdateStab l' \<noteq> needsUpdateStab l"
  shows "stab l' \<noteq> stab l"
proof -
  from slot_body_cases [OF assms(1)] assms(2)
  obtain v where l': "l' = foldl (\<lambda>l t. update_target t v l) l (targets (PIDs inst ! k))"
    by auto
  have "(needsUpdateStab l' = needsUpdateStab l \<and> stab l' = stab l)
         \<or> (GyroTau (stab l') = v \<and> GyroTau (stab l) \<noteq> v)"
    unfolding l' by (rule stab_changed_fold) simp
  with assms(2) show ?thesis by auto
qed

lemma slot_loop_snoc:
  "slot_loop U inst [0 ..< Suc n] l0 = Inr lf \<longleftrightarrow>
     (\<exists>l. slot_loop U inst [0 ..< n] l0 = Inr l \<and> slot_body U inst n l = Inr lf)"
  by (auto simp add: slot_loop_append split: sum.splits)

lemma loop_bank_flag:
  assumes "slot_loop U inst [0 ..< n] l0 = Inr lf"
    and "needsUpdateBank lf \<noteq> needsUpdateBank l0"
  shows "\<exists>k l l'. k < n \<and> slot_loop U inst [0 ..< k] l0 = Inr l
           \<and> slot_body U inst k l = Inr l' \<and> bank l' \<noteq> bank l"
  using assms
proof (induction n arbitrary: lf)
  case 0
  then show ?case by simp
next
  case (Suc n)
  from Suc.prems(1) obtain lm
    where lm: "slot_loop U inst [0 ..< n] l0 = Inr lm" "slot_body U inst n lm = Inr lf"
    unfolding slot_loop_snoc by blast
  show ?case
  proof (cases "needsUpdateBank lm = needsUpdateBank l0")
    case True
    with Suc.prems(2) lm(2) have "bank lf \<noteq> bank lm"
      by (auto dest: slot_body_bank_flag)
    with lm show ?thesis by blast
  next
    case False
    from Suc.IH [OF lm(1) False] show ?thesis
      using less_Suc_eq by blast
  qed
qed

lemma loop_stab_flag:
  assumes "slot_loop U inst [0 ..< n] l0 = Inr lf"
    and "needsUpdateStab lf \<noteq> needsUpdateStab l0"
  shows "\<exists>k l l'. k < n \<and> slot_loop U inst [0 ..< k] l0 = Inr l
           \<and> slot_body U inst k l = Inr l' \<and> stab l' \<noteq> stab l"
  using assms
proof (induction n arbitrary: lf)
  case 0
  then show ?case by simp
next
  case (Suc n)
  from Suc.prems(1) obtain lm
    where lm: "slot_loop U inst [0 ..< n] l0 = Inr lm" "slot_body U inst n lm = Inr lf"
    unfolding slot_loop_snoc by blast
  show ?case
  proof (cases "needsUpdateStab lm = needsUpdateStab l0")
    case True
    with Suc.prems(2) lm(2) have "stab lf \<noteq> stab lm"
      by (auto dest: slot_body_stab_flag)
    with lm show ?thesis by blast
  next
    case False
    from Suc.IH [OF lm(1) False] show ?thesis
      using less_Suc_eq by blast
  qed
qed

lemma updatePIDs_Inr:
  assumes "updatePIDs K ev_obj U = Inr ws"
  shows "ws = [] \<or> (\<exists>b lf. bank_load U (UpdateMode (TxPIDSettings U)) = Some b
      \<and> slot_loop U (TxPIDSettings U) [0 ..< length (PIDs (TxPIDSettings U))] (tick_start U b)
          = Inr lf
      \<and> ws = (if needsUpdateStab lf \<noteq> 0 then [StabilizationSettingsSet (stab lf)] else [])
             @ (if needsUpdateBank lf \<noteq> 0
                then bank_store (UpdateMode (TxPIDSettings U)) (bank lf) else []))"
  using assms
  by (auto simp add: updatePIDs_def Let_def tick_start_def split: if_splits option.splits sum.splits)

lemma bank_store_sets:
  "length (filter is_bank_set (bank_store m b)) \<le> Suc 0"
  "filter is_stab_set (bank_store m b) = []"
  by (simp_all add: bank_store_def)

text \<open>
  C6.  A tick that returns performs at most one write of a bank object and at most one
  write of the settings object.  A bank write happens only if, at some slot of the tick,
  the body of the loop changed the local bank record (an \<open>update\<close> on one of its fields
  returned 1 and assigned a different value); a settings write happens only if at some
  slot the local settings record changed.
\<close>

theorem writes_once_and_only_after_change:
  assumes "updatePIDs K ev_obj U = Inr ws"
  shows "length (filter is_bank_set ws) \<le> 1 \<and> length (filter is_stab_set ws) \<le> 1
    \<and> ((\<exists>w \<in> set ws. is_bank_set w) \<longrightarrow>
         (\<exists>b k l l'. bank_load U (UpdateMode (TxPIDSettings U)) = Some b
            \<and> k < length (PIDs (TxPIDSettings U))
            \<and> slot_loop U (TxPIDSettings U) [0 ..< k] (tick_start U b) = Inr l
            \<and> slot_body U (TxPIDSettings U) k l = Inr l' \<and> bank l' \<noteq> bank l))
    \<and> ((\<exists>w \<in> set ws. is_stab_set w) \<longrightarrow>
         (\<exists>b k l l'. bank_load U (UpdateMode (TxPIDSettings U)) = Some b
            \<and> k < length (PIDs (TxPIDSettings U))
            \<and> slot_loop U (TxPIDSettings U) [0 ..< k] (tick_start U b) = Inr l
            \<and> slot_body U (TxPIDSettings U) k l = Inr l' \<and> stab l' \<noteq> stab l))"
proof -
  from updatePIDs_Inr [OF assms] show ?thesis
  proof
    assume "ws = []"
    then show ?thesis by simp
  next
    assume "\<exists>b lf. bank_load U (UpdateMode (TxPIDSettings U)) = Some b
      \<and> slot_loop U (TxPIDSettings U) [0 ..< length (PIDs (TxPIDSettings U))] (tick_start U b)
          = Inr lf
      \<and> ws = (if needsUpdateStab lf \<noteq> 0 then [StabilizationSettingsSet (stab lf)] else [])
             @ (if needsUpdateBank lf \<noteq> 0
                then bank_store (UpdateMode (TxPIDSettings U)) (bank lf) else [])"
    then obtain b lf where b: "bank_load U (UpdateMode (TxPIDSettings U)) = Some b"
      and loop: "slot_loop U (TxPIDSettings U) [0 ..< length (PIDs (TxPIDSettings U))]
                   (tick_start U b) = Inr lf"
      and ws: "ws = (if needsUpdateStab lf \<noteq> 0 then [StabilizationSettingsSet (stab lf)] else [])
             @ (if needsUpdateBank lf \<noteq> 0
                then bank_store (UpdateMode (TxPIDSettings U)) (bank lf) else [])"
      by blast
    have once: "length (filter is_bank_set ws) \<le> 1 \<and> length (filter is_stab_set ws) \<le> 1"
      unfolding ws by (simp add: bank_store_sets)
    have bankw: "\<exists>k l l'. k < length (PIDs (TxPIDSettings U))
            \<and> slot_loop U (TxPIDSettings U) [0 ..< k] (tick_start U b) = Inr l
            \<and> slot_body U (TxPIDSettings U) k l = Inr l' \<and> bank l' \<noteq> bank l"
      if "\<exists>w \<in> set ws. is_bank_set w"
    proof -
      from that have "needsUpdateBank lf \<noteq> 0"
        unfolding ws by (auto split: if_splits)
      then have "needsUpdateBank lf \<noteq> needsUpdateBank (tick_start U b)"
        by (simp add: tick_start_def)
      from loop_bank_flag [OF loop this] show ?thesis .
    qed
    have stabw: "\<exists>k l l'. k < length (PIDs (TxPIDSettings U))
            \<and> slot_loop U (TxPIDSettings U) [0 ..< k] (tick_start U b) = Inr l
            \<and> slot_body U (TxPIDSettings U) k l = Inr l' \<and> stab l' \<noteq> stab l"
      if "\<exists>w \<in> set ws. is_stab_set w"
    proof -
      from that have "needsUpdateStab lf \<noteq> 0"
        unfolding ws by (auto simp add: bank_store_def split: if_splits)
      then have "needsUpdateStab lf \<noteq> needsUpdateStab (tick_start U b)"
        by (simp add: tick_start_def)
      from loop_stab_flag [OF loop this] show ?thesis .
    qed
    from once bankw stabw b show ?thesis by blast
  qed
qed

section \<open>Concrete ticks\<close>

lemmas tick_eval =
  updatePIDs_def after_tick_def K0_def U_one_def bank_load_def bank_store_def slot_body_def
  slot_value_def INPUTS_THROTTLE_def INPUTS_ACCESSORY0_def AccessoryDesiredInstGet_def
  scale_def update_def update_bank_def update_stab_def
  zero_bank_def zero_rate_def zero_pi_def bank_with_kp_def tick_start_def

lemma tick_mode2:
  "updatePIDs K0 7 U_mode2
     = Inr [StabilizationSettingsBank2Set (bank_with_kp (f32_lit 5 1) (f32_lit 2 1))]"
  by (simp add: U_mode2_def tick_eval f32_eval)

lemma tick_two: "updatePIDs K0 7 U_two = Inr [StabilizationSettingsBank2Set bank_two]"
  by (simp add: U_two_def bank_two_def tick_eval f32_eval)

lemma tick_gyro:
  "updatePIDs K0 7 U_gyro = Inr [StabilizationSettingsSet \<lparr>GyroTau = f32_lit 5 1\<rparr>]"
  by (simp add: U_gyro_def tick_eval f32_eval)

lemma no_shared_target_U_two: "no_shared_target U_two"
  by (simp add: no_shared_target_def slot_targets_def U_two_def U_one_def less_Suc_eq
      all_conj_distrib)

lemma slot_value_two: "slot_value U_two (TxPIDSettings U_two) 0 = Some (f32_lit 5 1)"
  by (simp add: U_two_def tick_eval f32_eval)

lemma others_two:
  "\<forall>j < length (PIDs (TxPIDSettings U_two)). j \<noteq> 0 \<longrightarrow>
        Bank_field RollRatePID_Kp \<notin> set (slot_targets U_two j)
        \<and> Bank_field PitchRatePID_Kp \<notin> set (slot_targets U_two j)"
  by (simp add: slot_targets_def U_two_def U_one_def less_Suc_eq)

theorem writes_once_and_only_after_change_witness:
  "updatePIDs K0 7 U_mode2
     = Inr [StabilizationSettingsBank2Set (bank_with_kp (f32_lit 5 1) (f32_lit 2 1))]
   \<and> length (filter is_bank_set
        [StabilizationSettingsBank2Set (bank_with_kp (f32_lit 5 1) (f32_lit 2 1))]) \<le> 1
   \<and> (\<exists>w \<in> set [StabilizationSettingsBank2Set (bank_with_kp (f32_lit 5 1) (f32_lit 2 1))].
         is_bank_set w)
   \<and> (\<exists>b k l l'. bank_load U_mode2 (UpdateMode (TxPIDSettings U_mode2)) = Some b
        \<and> k < length (PIDs (TxPIDSettings U_mode2))
        \<and> slot_loop U_mode2 (TxPIDSettings U_mode2) [0 ..< k] (tick_start U_mode2 b) = Inr l
        \<and> slot_body U_mode2 (TxPIDSettings U_mode2) k l = Inr l' \<and> bank l' \<noteq> bank l)
   \<and> updatePIDs K0 7 U_gyro = Inr [StabilizationSettingsSet \<lparr>GyroTau = f32_lit 5 1\<rparr>]
   \<and> (\<exists>w \<in> set [StabilizationSettingsSet \<lparr>GyroTau = f32_lit 5 1\<rparr>]. is_stab_set w)
   \<and> (\<exists>b k l l'. bank_load U_gyro (UpdateMode (TxPIDSettings U_gyro)) = Some b
        \<and> k < length (PIDs (TxPIDSettings U_gyro))
        \<and> slot_loop U_gyro (TxPIDSettings U_gyro) [0 ..< k] (tick_start U_gyro b) = Inr l
        \<and> slot_body U_gyro (TxPIDSettings U_gyro) k l = Inr l' \<and> stab l' \<noteq> stab l)"
proof -
  have w: "\<exists>w \<in> set [StabilizationSettingsBank2Set (bank_with_kp (f32_lit 5 1) (f32_lit 2 1))].
         is_bank_set w"
    by simp
  have g: "\<exists>w \<in> set [StabilizationSettingsSet \<lparr>GyroTau = f32_lit 5 1\<rparr>]. is_stab_set w"
    by simp
  from writes_once_and_only_after_change [OF tick_mode2] w tick_mode2
    writes_once_and_only_after_change [OF tick_gyro] g tick_gyro
  show ?thesis by blast
qed

section \<open>The bank selector\<close>

lemma selector_in_range:
  "bank_load U 0 = Some (StabilizationSettingsBank1 U)
   \<and> bank_store 0 b = [StabilizationSettingsBank1Set b]
   \<and> bank_load U 1 = Some (StabilizationSettingsBank2 U)
   \<and> bank_store 1 b = [StabilizationSettingsBank2Set b]"
  by (simp add: bank_load_def bank_store_def)

lemma selector_out_of_range:
  assumes "UpdateMode (TxPIDSettings U) \<notin> {0, 1, 2}"
  shows "updatePIDs K ev_obj U = Inr [] \<and> after_tick K ev_obj U = U"
  using assms by (simp add: updatePIDs_def after_tick_def bank_load_def Let_def)

text \<open>
  C1.  With the bank selector 2 the tick does not load bank 3: it loads bank 2 and
  writes the changed record back into bank 2.  Here the three banks hold the roll rate
  Kp 1, 2 and 3, and the slot sets it to 5: the record written is bank 2 with Kp 5, bank 3
  is not touched.
\<close>

theorem selector_2_loads_and_stores_bank2:
  "UpdateMode (TxPIDSettings U_mode2) = 2
   \<and> StabilizationSettingsBank2 U_mode2 = bank_with_kp (f32_lit 2 1) (f32_lit 2 1)
   \<and> StabilizationSettingsBank3 U_mode2 = bank_with_kp (f32_lit 3 1) (f32_lit 3 1)
   \<and> updatePIDs K0 7 U_mode2
       = Inr [StabilizationSettingsBank2Set (bank_with_kp (f32_lit 5 1) (f32_lit 2 1))]
   \<and> StabilizationSettingsBank2 (after_tick K0 7 U_mode2)
       = bank_with_kp (f32_lit 5 1) (f32_lit 2 1)
   \<and> StabilizationSettingsBank3 (after_tick K0 7 U_mode2)
       = bank_with_kp (f32_lit 3 1) (f32_lit 3 1)"
proof -
  have "after_tick K0 7 U_mode2
      = U_mode2\<lparr>StabilizationSettingsBank2 := bank_with_kp (f32_lit 5 1) (f32_lit 2 1)\<rparr>"
    unfolding after_tick_def tick_mode2 by simp
  then show ?thesis
    unfolding tick_mode2 by (simp add: U_mode2_def U_one_def)
qed

section \<open>The sine lookup\<close>

text \<open>
  C10.  The index that \<open>sin_lookup_deg\<close> computes leaves the table: for the angle 180 it
  is 180, one past the last entry, and for the angle -1 it is -1.
\<close>

theorem sin_lookup_deg_reads_outside_table:
  "sin_lookup_deg sin_table (f32_lit 180 1) = Inl (Out_of_bounds 180)
   \<and> sin_lookup_deg sin_table (fneg (f32_lit 1 1)) = Inl (Out_of_bounds (- 1))"
  by (simp add: sin_lookup_deg_def sin_table_read_def SIN_RESOLUTION_def c_rem_def f32_eval)

section \<open>The slot loop and the destinations\<close>

lemma fold_targets_other:
  "t \<notin> set ts \<Longrightarrow>
   target_get t (foldl (\<lambda>l t. update_target t v l) l ts) = target_get t l"
  by (induction ts arbitrary: l) (simp_all add: target_get_update_target)

lemma fold_targets_member:
  "t \<in> set ts \<Longrightarrow>
   target_get t (foldl (\<lambda>l t. update_target t v l) l ts)
     = (if differs (target_get t l) v then v else target_get t l)"
proof (induction ts arbitrary: l)
  case Nil
  then show ?case by simp
next
  case (Cons t' ts)
  show ?case
  proof (cases "t \<in> set ts")
    case True
    from Cons.IH [OF True, of "update_target t' v l"] show ?thesis
      by (simp add: target_get_update_target not_differs_self)
  next
    case False
    with Cons.prems have "t' = t" by simp
    with False show ?thesis
      by (simp add: fold_targets_other target_get_update_target)
  qed
qed

lemma fold_targets_steady:
  "\<forall>t \<in> set ts. \<not> differs (target_get t l) v \<Longrightarrow>
   foldl (\<lambda>l t. update_target t v l) l ts = l"
  by (induction ts arbitrary: l) (simp_all add: update_target_same)

lemma fold_targets_matches:
  "t \<in> set ts \<Longrightarrow> \<not> differs (target_get t (foldl (\<lambda>l t. update_target t v l) l ts)) v"
  by (simp add: fold_targets_member not_differs_self)

lemma slot_body_target_get:
  assumes "slot_body U (TxPIDSettings U) k l = Inr l'" and "t \<notin> set (slot_targets U k)"
  shows "target_get t l' = target_get t l"
  using slot_body_cases [OF assms(1)] assms(2)
  by (auto simp add: slot_targets_def fold_targets_other)

lemma slot_loop_target_get:
  assumes "slot_loop U (TxPIDSettings U) js l = Inr l'"
    and "\<forall>j \<in> set js. t \<notin> set (slot_targets U j)"
  shows "target_get t l' = target_get t l"
  using assms
proof (induction js arbitrary: l)
  case Nil
  then show ?case by simp
next
  case (Cons j js)
  from Cons.prems(1) obtain lm
    where lm: "slot_body U (TxPIDSettings U) j l = Inr lm"
      "slot_loop U (TxPIDSettings U) js lm = Inr l'"
    by (auto split: sum.splits)
  from Cons.prems(2) have "target_get t lm = target_get t l"
    by (simp add: slot_body_target_get [OF lm(1)])
  moreover from Cons.IH [OF lm(2)] Cons.prems(2) have "target_get t l' = target_get t lm"
    by simp
  ultimately show ?case by simp
qed

lemma slot_body_steady:
  assumes "slot_steady U inst l k"
  shows "slot_body U inst k l = Inr l \<or> slot_body U inst k l = Inl PIOS_Assert_failed"
  using assms
  by (auto simp add: slot_steady_def slot_body_def dispatch_targets fold_targets_steady
      split: option.splits)

lemma slot_loop_steady:
  assumes "\<forall>k \<in> set js. slot_steady U inst l k"
  shows "slot_loop U inst js l = Inr l \<or> slot_loop U inst js l = Inl PIOS_Assert_failed"
  using assms
proof (induction js)
  case Nil
  then show ?case by simp
next
  case (Cons j js)
  then have "slot_body U inst j l = Inr l \<or> slot_body U inst j l = Inl PIOS_Assert_failed"
    by (simp add: slot_body_steady)
  with Cons show ?case by auto
qed

lemma slot_steady_cong:
  assumes "bank l' = bank l" and "stab l' = stab l"
    and "\<And>i. slot_value U' inst i = slot_value U inst i"
  shows "slot_steady U' inst l' i = slot_steady U inst l i"
proof -
  have "target_get t l' = target_get t l" for t
    using assms(1,2) by (cases t) simp_all
  with assms(3) show ?thesis
    by (simp add: slot_steady_def split: option.splits)
qed

lemma steady_no_writes:
  assumes "steady U"
  shows "no_writes K ev_obj U \<and> after_tick K ev_obj U = U"
proof (cases "bank_load U (UpdateMode (TxPIDSettings U))")
  case None
  then show ?thesis
    by (simp add: no_writes_def after_tick_def updatePIDs_def Let_def)
next
  case (Some b)
  with assms have "\<forall>k \<in> set [0 ..< length (PIDs (TxPIDSettings U))].
      slot_steady U (TxPIDSettings U) (tick_start U b) k"
    by (simp add: steady_def)
  from slot_loop_steady [OF this] Some show ?thesis
    by (auto simp add: no_writes_def after_tick_def updatePIDs_def Let_def tick_start_def)
qed

lemma keep_bank_step:
  "(bank (update_target t v l) = bank l
      \<and> needsUpdateBank (update_target t v l) = needsUpdateBank l)
   \<or> needsUpdateBank (update_target t v l) \<noteq> 0"
  by (cases t) (simp_all add: update_bank_eq update_stab_eq or_1_neq_0)

lemma keep_stab_step:
  "(stab (update_target t v l) = stab l
      \<and> needsUpdateStab (update_target t v l) = needsUpdateStab l)
   \<or> needsUpdateStab (update_target t v l) \<noteq> 0"
  by (cases t) (simp_all add: update_bank_eq update_stab_eq or_1_neq_0)

lemma keep_bank_fold:
  "(bank (foldl (\<lambda>l t. update_target t v l) l ts) = bank l
      \<and> needsUpdateBank (foldl (\<lambda>l t. update_target t v l) l ts) = needsUpdateBank l)
   \<or> needsUpdateBank (foldl (\<lambda>l t. update_target t v l) l ts) \<noteq> 0"
proof (induction ts arbitrary: l)
  case Nil
  then show ?case by simp
next
  case (Cons t ts)
  from Cons.IH [of "update_target t v l"] keep_bank_step [of t v l]
  show ?case by auto
qed

lemma keep_stab_fold:
  "(stab (foldl (\<lambda>l t. update_target t v l) l ts) = stab l
      \<and> needsUpdateStab (foldl (\<lambda>l t. update_target t v l) l ts) = needsUpdateStab l)
   \<or> needsUpdateStab (foldl (\<lambda>l t. update_target t v l) l ts) \<noteq> 0"
proof (induction ts arbitrary: l)
  case Nil
  then show ?case by simp
next
  case (Cons t ts)
  from Cons.IH [of "update_target t v l"] keep_stab_step [of t v l]
  show ?case by auto
qed

lemma keep_body:
  assumes "slot_body U inst k l = Inr l'"
  shows "(bank l' = bank l \<and> needsUpdateBank l' = needsUpdateBank l) \<or> needsUpdateBank l' \<noteq> 0"
    and "(stab l' = stab l \<and> needsUpdateStab l' = needsUpdateStab l) \<or> needsUpdateStab l' \<noteq> 0"
proof -
  from slot_body_cases [OF assms]
  show "(bank l' = bank l \<and> needsUpdateBank l' = needsUpdateBank l) \<or> needsUpdateBank l' \<noteq> 0"
  proof
    assume "l' = l"
    then show ?thesis by simp
  next
    assume "\<exists>v. slot_value U inst k = Some v \<and> PIDs inst ! k \<noteq> PIDS_DISABLED
            \<and> targets (PIDs inst ! k) \<noteq> []
            \<and> l' = foldl (\<lambda>l t. update_target t v l) l (targets (PIDs inst ! k))"
    then obtain v where "l' = foldl (\<lambda>l t. update_target t v l) l (targets (PIDs inst ! k))"
      by blast
    then show ?thesis
      using keep_bank_fold [of v l "targets (PIDs inst ! k)"] by simp
  qed
  from slot_body_cases [OF assms]
  show "(stab l' = stab l \<and> needsUpdateStab l' = needsUpdateStab l) \<or> needsUpdateStab l' \<noteq> 0"
  proof
    assume "l' = l"
    then show ?thesis by simp
  next
    assume "\<exists>v. slot_value U inst k = Some v \<and> PIDs inst ! k \<noteq> PIDS_DISABLED
            \<and> targets (PIDs inst ! k) \<noteq> []
            \<and> l' = foldl (\<lambda>l t. update_target t v l) l (targets (PIDs inst ! k))"
    then obtain v where "l' = foldl (\<lambda>l t. update_target t v l) l (targets (PIDs inst ! k))"
      by blast
    then show ?thesis
      using keep_stab_fold [of v l "targets (PIDs inst ! k)"] by simp
  qed
qed

lemma keep_loop:
  assumes "slot_loop U inst js l = Inr l'"
  shows "((bank l' = bank l \<and> needsUpdateBank l' = needsUpdateBank l)
           \<or> needsUpdateBank l' \<noteq> 0)
       \<and> ((stab l' = stab l \<and> needsUpdateStab l' = needsUpdateStab l)
           \<or> needsUpdateStab l' \<noteq> 0)"
  using assms
proof (induction js arbitrary: l)
  case Nil
  then show ?case by simp
next
  case (Cons j js)
  from Cons.prems obtain lm
    where lm: "slot_body U inst j l = Inr lm" "slot_loop U inst js lm = Inr l'"
    by (auto split: sum.splits)
  from keep_body [OF lm(1)] Cons.IH [OF lm(2)] show ?case
    by auto
qed

lemma do_set_frame:
  "TxPIDSettings (foldl do_set U ws) = TxPIDSettings U"
  "FlightStatusArmed (foldl do_set U ws) = FlightStatusArmed U"
  "ManualControlCommandThrottle (foldl do_set U ws) = ManualControlCommandThrottle U"
  "AccessoryDesired (foldl do_set U ws) = AccessoryDesired U"
proof (induction ws arbitrary: U)
  case Nil
  {
    case 1 show ?case by simp
  next
    case 2 show ?case by simp
  next
    case 3 show ?case by simp
  next
    case 4 show ?case by simp
  }
next
  case (Cons w ws)
  {
    case 1 show ?case by (cases w) (simp_all add: Cons.IH)
  next
    case 2 show ?case by (cases w) (simp_all add: Cons.IH)
  next
    case 3 show ?case by (cases w) (simp_all add: Cons.IH)
  next
    case 4 show ?case by (cases w) (simp_all add: Cons.IH)
  }
qed

lemma after_tick_frame:
  "TxPIDSettings (after_tick K ev_obj U) = TxPIDSettings U"
  "FlightStatusArmed (after_tick K ev_obj U) = FlightStatusArmed U"
  "ManualControlCommandThrottle (after_tick K ev_obj U) = ManualControlCommandThrottle U"
  "AccessoryDesired (after_tick K ev_obj U) = AccessoryDesired U"
  by (simp_all add: after_tick_def do_set_frame split: sum.splits)

lemma slot_value_after_tick:
  "slot_value (after_tick K ev_obj U) inst i = slot_value U inst i"
  by (simp add: slot_value_def AccessoryDesiredInstGet_def after_tick_frame)

lemma tick_runs_after_tick:
  "tick_runs K ev_obj (after_tick K ev_obj U) = tick_runs K ev_obj U"
  by (simp add: tick_runs_def after_tick_frame)

lemma updatePIDs_not_runs:
  "\<not> tick_runs K ev_obj U \<Longrightarrow> updatePIDs K ev_obj U = Inr []"
  by (auto simp add: tick_runs_def updatePIDs_def Let_def)

lemma updatePIDs_runs:
  assumes "tick_runs K ev_obj U"
  shows "updatePIDs K ev_obj U =
     (case bank_load U (UpdateMode (TxPIDSettings U)) of
        None \<Rightarrow> Inr []
      | Some b \<Rightarrow>
         (case slot_loop U (TxPIDSettings U) [0 ..< length (PIDs (TxPIDSettings U))]
                 (tick_start U b)
          of Inl e \<Rightarrow> Inl e
           | Inr l \<Rightarrow>
               Inr ((if needsUpdateStab l \<noteq> 0 then [StabilizationSettingsSet (stab l)] else [])
                    @ (if needsUpdateBank l \<noteq> 0
                       then bank_store (UpdateMode (TxPIDSettings U)) (bank l) else []))))"
proof -
  from assms have a: "ev_obj = AccessoryDesiredHandle K"
    "UpdateMode (TxPIDSettings U) \<noteq> UPDATEMODE_NEVER K"
    "\<not> (UpdateMode (TxPIDSettings U) = UPDATEMODE_WHENARMED K
        \<and> FlightStatusArmed U = ARMED_DISARMED K)"
    by (simp_all add: tick_runs_def)
  show ?thesis
    unfolding updatePIDs_def Let_def tick_start_def
    by (simp only: a simp_thms if_False if_True)
qed

lemma after_tick_records:
  assumes "tick_runs K ev_obj U"
    and "bank_load U (UpdateMode (TxPIDSettings U)) = Some b"
    and "slot_loop U (TxPIDSettings U) [0 ..< length (PIDs (TxPIDSettings U))] (tick_start U b)
           = Inr lf"
  shows "bank_load (after_tick K ev_obj U) (UpdateMode (TxPIDSettings U)) = Some (bank lf)"
    and "StabilizationSettings (after_tick K ev_obj U) = stab lf"
proof -
  from keep_loop [OF assms(3)]
  have keep: "needsUpdateBank lf = 0 \<longrightarrow> bank lf = b"
    "needsUpdateStab lf = 0 \<longrightarrow> stab lf = StabilizationSettings U"
    by (auto simp add: tick_start_def)
  have tick: "updatePIDs K ev_obj U =
      Inr ((if needsUpdateStab lf \<noteq> 0 then [StabilizationSettingsSet (stab lf)] else [])
           @ (if needsUpdateBank lf \<noteq> 0
              then bank_store (UpdateMode (TxPIDSettings U)) (bank lf) else []))"
    by (simp add: updatePIDs_runs [OF assms(1)] assms(2,3))
  from assms(2) have mode: "UpdateMode (TxPIDSettings U) = 0 \<or> UpdateMode (TxPIDSettings U) = 1
      \<or> UpdateMode (TxPIDSettings U) = 2"
    by (auto simp add: bank_load_def split: if_splits)
  from mode assms(2) keep
  show "bank_load (after_tick K ev_obj U) (UpdateMode (TxPIDSettings U)) = Some (bank lf)"
    unfolding after_tick_def tick
    by (auto simp add: bank_load_def bank_store_def)
  from mode keep
  show "StabilizationSettings (after_tick K ev_obj U) = stab lf"
    unfolding after_tick_def tick
    by (auto simp add: bank_store_def)
qed

lemma loop_establishes_steady:
  assumes "slot_loop U (TxPIDSettings U) [0 ..< n] l0 = Inr lf"
    and "no_shared_target U" and "n \<le> length (PIDs (TxPIDSettings U))"
  shows "\<forall>i < n. slot_steady U (TxPIDSettings U) lf i"
  using assms(1,3)
proof (induction n arbitrary: lf)
  case 0
  then show ?case by simp
next
  case (Suc n)
  from Suc.prems(1) obtain lm
    where lm: "slot_loop U (TxPIDSettings U) [0 ..< n] l0 = Inr lm"
      "slot_body U (TxPIDSettings U) n lm = Inr lf"
    unfolding slot_loop_snoc by blast
  from Suc.IH [OF lm(1)] Suc.prems(2)
  have IH: "\<forall>i < n. slot_steady U (TxPIDSettings U) lm i"
    by simp
  have "slot_steady U (TxPIDSettings U) lf i" if "i < Suc n" for i
  proof (cases "i = n")
    case True
    show ?thesis
    proof (cases "PIDs (TxPIDSettings U) ! n = PIDS_DISABLED")
      case dis: True
      with True show ?thesis
        by (simp add: slot_steady_def)
    next
      case en: False
      show ?thesis
      proof (cases "slot_value U (TxPIDSettings U) n")
        case None
        with True show ?thesis
          by (simp add: slot_steady_def)
      next
        case (Some v)
        with lm(2) en
        have "lf = foldl (\<lambda>l t. update_target t v l) lm (targets (PIDs (TxPIDSettings U) ! n))"
          by (simp add: slot_body_def dispatch_targets split: if_splits)
        with True Some show ?thesis
          by (simp add: slot_steady_def fold_targets_matches)
      qed
    qed
  next
    case False
    with that have i: "i < n" by simp
    with IH have st: "slot_steady U (TxPIDSettings U) lm i" by simp
    from i Suc.prems(2) assms(2)
    have disj: "set (slot_targets U i) \<inter> set (slot_targets U n) = {}"
      by (simp add: no_shared_target_def)
    have "target_get t lf = target_get t lm" if "t \<in> set (slot_targets U i)" for t
      using that disj by (intro slot_body_target_get [OF lm(2)]) blast
    with st show ?thesis
      by (auto simp add: slot_steady_def slot_targets_def split: option.splits)
  qed
  then show ?case by blast
qed

lemma second_tick_no_writes:
  assumes "no_shared_target U"
  shows "no_writes K ev_obj (after_tick K ev_obj U)"
proof (cases "tick_runs K ev_obj U")
  case False
  then show ?thesis
    by (simp add: updatePIDs_not_runs after_tick_def no_writes_def)
next
  case True
  show ?thesis
  proof (cases "bank_load U (UpdateMode (TxPIDSettings U))")
    case None
    with True show ?thesis
      by (simp add: updatePIDs_runs after_tick_def no_writes_def)
  next
    case (Some b)
    show ?thesis
    proof (cases "slot_loop U (TxPIDSettings U) [0 ..< length (PIDs (TxPIDSettings U))]
                    (tick_start U b)")
      case (Inl e)
      with True Some show ?thesis
        by (simp add: updatePIDs_runs after_tick_def no_writes_def)
    next
      case (Inr lf)
      from loop_establishes_steady [OF Inr assms]
      have st: "\<forall>i < length (PIDs (TxPIDSettings U)). slot_steady U (TxPIDSettings U) lf i"
        by simp
      have same: "slot_steady (after_tick K ev_obj U) (TxPIDSettings U)
                    (tick_start (after_tick K ev_obj U) (bank lf)) i
                  = slot_steady U (TxPIDSettings U) lf i" for i
        by (rule slot_steady_cong)
          (simp_all add: tick_start_def after_tick_records(2) [OF True Some Inr]
            slot_value_after_tick)
      have "steady (after_tick K ev_obj U)"
        unfolding steady_def after_tick_frame after_tick_records(1) [OF True Some Inr]
        using st by (simp add: same)
      then show ?thesis
        by (simp add: steady_no_writes)
    qed
  qed
qed

section \<open>The steady state\<close>

text \<open>
  C7.  If every slot that is enabled and resolves has a scaled value that matches each
  of its destinations within the epsilon of \<open>update\<close>, the tick writes nothing and the
  objects stay as they are.  After a tick, a second tick on the same inputs writes
  nothing, provided no destination is shared by two slots that are enabled and resolve.
\<close>

theorem steady_state_no_writes:
  "(steady U \<longrightarrow> no_writes K ev_obj U \<and> after_tick K ev_obj U = U)
   \<and> (no_shared_target U \<longrightarrow> no_writes K ev_obj (after_tick K ev_obj U))"
  by (simp add: steady_no_writes second_tick_no_writes)

lemma steady_U_steady: "steady U_steady"
  by (simp add: steady_def slot_steady_def U_steady_def differs_def tick_eval f32_eval)

theorem steady_state_no_writes_witness:
  "steady U_steady \<and> no_writes K0 7 U_steady \<and> after_tick K0 7 U_steady = U_steady
   \<and> no_shared_target U_two \<and> no_writes K0 7 (after_tick K0 7 U_two)"
  using steady_state_no_writes [of U_steady K0 7] steady_state_no_writes [of U_two K0 7]
    steady_U_steady no_shared_target_U_two
  by blast

lemma tick_conflict:
  "updatePIDs K0 7 U_conflict
     = Inr [StabilizationSettingsBank2Set (bank_with_kp (f32_lit 2 1) (f32_lit 2 1))]"
  by (simp add: U_conflict_def tick_eval f32_eval)

lemma after_tick_conflict: "after_tick K0 7 U_conflict = U_conflict"
  unfolding after_tick_def tick_conflict
  by (simp add: U_conflict_def U_one_def)

text \<open>
  The second part of C7 fails without the proviso: with two slots on the roll rate Kp,
  set to 1 and then to 2, the tick after a tick writes bank 2 again.
\<close>

theorem second_tick_writes_counterexample:
  "updatePIDs K0 7 (after_tick K0 7 U_conflict)
     = Inr [StabilizationSettingsBank2Set (bank_with_kp (f32_lit 2 1) (f32_lit 2 1))]
   \<and> \<not> no_writes K0 7 (after_tick K0 7 U_conflict)"
  unfolding after_tick_conflict no_writes_def tick_conflict by simp

section \<open>Coupled destinations\<close>

lemma upt_split: "i < n \<Longrightarrow> [0 ..< n] = [0 ..< i] @ i # [Suc i ..< n]"
  using upt_add_eq_append [of 0 i "n - i"] by (simp add: upt_conv_Cons)

lemma slot_body_enabled:
  assumes "PIDs inst ! i \<noteq> PIDS_DISABLED" and "slot_value U inst i = Some v"
    and "slot_body U inst i l = Inr l'"
  shows "l' = foldl (\<lambda>l t. update_target t v l) l (targets (PIDs inst ! i))"
  using assms by (simp add: slot_body_def dispatch_targets split: if_splits)

lemma loop_target_of_slot:
  assumes loop: "slot_loop U (TxPIDSettings U) [0 ..< length (PIDs (TxPIDSettings U))] l0 = Inr lf"
    and i: "i < length (PIDs (TxPIDSettings U))"
    and en: "PIDs (TxPIDSettings U) ! i \<noteq> PIDS_DISABLED"
    and v: "slot_value U (TxPIDSettings U) i = Some v"
    and t: "t \<in> set (targets (PIDs (TxPIDSettings U) ! i))"
    and others: "\<forall>j < length (PIDs (TxPIDSettings U)). j \<noteq> i \<longrightarrow> t \<notin> set (slot_targets U j)"
  shows "target_get t lf = (if differs (target_get t l0) v then v else target_get t l0)"
proof -
  from loop obtain l1 l2
    where l1: "slot_loop U (TxPIDSettings U) [0 ..< i] l0 = Inr l1"
      and l2: "slot_body U (TxPIDSettings U) i l1 = Inr l2"
      and lf: "slot_loop U (TxPIDSettings U) [Suc i ..< length (PIDs (TxPIDSettings U))] l2 = Inr lf"
    unfolding upt_split [OF i] slot_loop_append
    by (auto split: sum.splits)
  have "target_get t l1 = target_get t l0"
    using others i by (intro slot_loop_target_get [OF l1]) simp
  moreover have "target_get t l2 = (if differs (target_get t l1) v then v else target_get t l1)"
    unfolding slot_body_enabled [OF en v l2] using t by (rule fold_targets_member)
  moreover have "target_get t lf = target_get t l2"
    using others by (intro slot_loop_target_get [OF lf]) simp
  ultimately show ?thesis by simp
qed

text \<open>
  C2.  Let a tick run and return, with the loaded bank \<open>b\<close>, a slot of target
  \<open>ROLLPITCHRATEKP\<close> whose input resolves to \<open>v\<close>, and no other active slot on the roll
  or the pitch rate Kp.  Then, in the bank after the tick, each of the two Kp is \<open>v\<close> if it
  differed from \<open>v\<close> by more than the epsilon of \<open>update\<close>, and is what it was otherwise.
  So the two are equal when both differed from \<open>v\<close> by more than the epsilon.
\<close>

theorem coupled_rate_kp_after_tick:
  assumes runs: "tick_runs K ev_obj U"
    and load: "bank_load U (UpdateMode (TxPIDSettings U)) = Some b"
    and ret: "updatePIDs K ev_obj U = Inr ws"
    and i: "i < length (PIDs (TxPIDSettings U))"
    and pid: "PIDs (TxPIDSettings U) ! i = PIDS_ROLLPITCHRATEKP"
    and v: "slot_value U (TxPIDSettings U) i = Some v"
    and others: "\<forall>j < length (PIDs (TxPIDSettings U)). j \<noteq> i \<longrightarrow>
        Bank_field RollRatePID_Kp \<notin> set (slot_targets U j)
        \<and> Bank_field PitchRatePID_Kp \<notin> set (slot_targets U j)"
  shows "\<exists>b'. bank_load (after_tick K ev_obj U) (UpdateMode (TxPIDSettings U)) = Some b'
      \<and> Kp (RollRatePID b') = (if differs (Kp (RollRatePID b)) v then v else Kp (RollRatePID b))
      \<and> Kp (PitchRatePID b')
          = (if differs (Kp (PitchRatePID b)) v then v else Kp (PitchRatePID b))
      \<and> (differs (Kp (RollRatePID b)) v \<and> differs (Kp (PitchRatePID b)) v
           \<longrightarrow> Kp (RollRatePID b') = Kp (PitchRatePID b'))"
proof -
  from ret obtain lf
    where loop: "slot_loop U (TxPIDSettings U) [0 ..< length (PIDs (TxPIDSettings U))]
                   (tick_start U b) = Inr lf"
    unfolding updatePIDs_runs [OF runs] load
    by (auto split: sum.splits)
  have en: "PIDs (TxPIDSettings U) ! i \<noteq> PIDS_DISABLED"
    by (simp add: pid)
  have roll: "target_get (Bank_field RollRatePID_Kp) lf
      = (if differs (target_get (Bank_field RollRatePID_Kp) (tick_start U b)) v then v
         else target_get (Bank_field RollRatePID_Kp) (tick_start U b))"
    using others by (intro loop_target_of_slot [OF loop i en v]) (simp_all add: pid)
  have pitch: "target_get (Bank_field PitchRatePID_Kp) lf
      = (if differs (target_get (Bank_field PitchRatePID_Kp) (tick_start U b)) v then v
         else target_get (Bank_field PitchRatePID_Kp) (tick_start U b))"
    using others by (intro loop_target_of_slot [OF loop i en v]) (simp_all add: pid)
  from roll pitch after_tick_records(1) [OF runs load loop] show ?thesis
    by (simp add: tick_start_def)
qed

theorem coupled_rate_kp_after_tick_witness:
  "tick_runs K0 7 U_two
   \<and> bank_load U_two (UpdateMode (TxPIDSettings U_two))
       = Some (bank_with_kp (f32_lit 2 1) (f32_lit 2 1))
   \<and> updatePIDs K0 7 U_two = Inr [StabilizationSettingsBank2Set bank_two]
   \<and> PIDs (TxPIDSettings U_two) ! 0 = PIDS_ROLLPITCHRATEKP
   \<and> slot_value U_two (TxPIDSettings U_two) 0 = Some (f32_lit 5 1)
   \<and> PIDs (TxPIDSettings U_two) ! 1 = PIDS_YAWRATEKP
   \<and> differs (f32_lit 2 1) (f32_lit 5 1)
   \<and> (\<exists>b'. bank_load (after_tick K0 7 U_two) (UpdateMode (TxPIDSettings U_two)) = Some b'
         \<and> Kp (RollRatePID b') = f32_lit 5 1 \<and> Kp (PitchRatePID b') = f32_lit 5 1)"
proof -
  have runs: "tick_runs K0 7 U_two"
    by (simp add: tick_runs_def K0_def U_two_def U_one_def)
  have load: "bank_load U_two (UpdateMode (TxPIDSettings U_two))
       = Some (bank_with_kp (f32_lit 2 1) (f32_lit 2 1))"
    by (simp add: bank_load_def U_two_def U_one_def)
  have i: "0 < length (PIDs (TxPIDSettings U_two))"
    by (simp add: U_two_def U_one_def)
  have pid: "PIDs (TxPIDSettings U_two) ! 0 = PIDS_ROLLPITCHRATEKP"
    "PIDs (TxPIDSettings U_two) ! 1 = PIDS_YAWRATEKP"
    by (simp_all add: U_two_def U_one_def)
  have d: "differs (f32_lit 2 1) (f32_lit 5 1)"
    unfolding differs_def f32_lit_eps by (simp add: f32_eval)
  have kp: "Kp (RollRatePID (bank_with_kp (f32_lit 2 1) (f32_lit 2 1))) = f32_lit 2 1"
    "Kp (PitchRatePID (bank_with_kp (f32_lit 2 1) (f32_lit 2 1))) = f32_lit 2 1"
    by (simp_all add: bank_with_kp_def zero_bank_def zero_rate_def)
  from coupled_rate_kp_after_tick [OF runs load tick_two i pid(1) slot_value_two others_two]
  show ?thesis
    unfolding kp using runs load pid slot_value_two d tick_two by auto
qed

lemma tick_coupled:
  "updatePIDs K0 7 U_coupled
     = Inr [StabilizationSettingsBank2Set (bank_with_kp (f32_lit 0 1) (f32_lit 5 (10 ^ 10)))]"
  by (simp add: U_coupled_def tick_eval f32_eval)

text \<open>
  The equality of C2 fails for a Kp within the epsilon of the new value: from the roll
  rate Kp 1 and the pitch rate Kp \<open>5e-10\<close>, the new value 0 replaces the first and
  not the second.
\<close>

theorem coupled_rate_kp_differ_counterexample:
  "tick_runs K0 7 U_coupled
   \<and> PIDs (TxPIDSettings U_coupled) ! 0 = PIDS_ROLLPITCHRATEKP
   \<and> slot_value U_coupled (TxPIDSettings U_coupled) 0 = Some (f32_lit 0 1)
   \<and> Kp (RollRatePID (StabilizationSettingsBank2 (after_tick K0 7 U_coupled))) = f32_lit 0 1
   \<and> Kp (PitchRatePID (StabilizationSettingsBank2 (after_tick K0 7 U_coupled)))
       = f32_lit 5 (10 ^ 10)
   \<and> Kp (RollRatePID (StabilizationSettingsBank2 (after_tick K0 7 U_coupled)))
       \<noteq> Kp (PitchRatePID (StabilizationSettingsBank2 (after_tick K0 7 U_coupled)))"
proof -
  have a: "tick_runs K0 7 U_coupled"
    by (simp add: tick_runs_def K0_def U_coupled_def U_one_def)
  have b: "PIDs (TxPIDSettings U_coupled) ! 0 = PIDS_ROLLPITCHRATEKP"
    by (simp add: U_coupled_def U_one_def)
  have c: "slot_value U_coupled (TxPIDSettings U_coupled) 0 = Some (f32_lit 0 1)"
    by (simp add: U_coupled_def tick_eval f32_eval)
  have d: "StabilizationSettingsBank2 (after_tick K0 7 U_coupled)
      = bank_with_kp (f32_lit 0 1) (f32_lit 5 (10 ^ 10))"
    unfolding after_tick_def tick_coupled by simp
  have e: "f32_lit 0 1 \<noteq> f32_lit 5 (10 ^ 10)"
    by (simp add: f32_eval)
  from a b c e show ?thesis
    unfolding d by (simp add: bank_with_kp_def zero_bank_def zero_rate_def)
qed

end
